theory Spec2Isabelle
  imports Complex_Main "HOL-Library.AList"
begin

section \<open>Python values\<close>

text \<open>
  The engine works on dictionaries loaded from JSON. A field value is \<open>None\<close>, an
  integer, a string, or a list of integers (the only list the engine reads is the RAM
  \<open>speed\<close> pair). Strings are ASCII. Python floats (the budget splits and the 0.7
  PSU factor) are taken as exact rationals.
\<close>

datatype val = VNone | VInt int | VStr string | VInts "int list"

datatype error = TypeError | ValueError | KeyError | IndexError | AttributeError

type_synonym part = "(string \<times> val) list"

text \<open>Truth value of a Python object (\<open>if x:\<close>, \<open>not x\<close>, \<open>x or y\<close>).\<close>

fun truthy :: "val \<Rightarrow> bool" where
  "truthy VNone = False"
| "truthy (VInt n) = (n \<noteq> 0)"
| "truthy (VStr s) = (s \<noteq> [])"
| "truthy (VInts xs) = (xs \<noteq> [])"

definition py_or :: "val \<Rightarrow> val \<Rightarrow> val" where
  "py_or a b = (if truthy a then a else b)"

text \<open>\<open>d.get(k)\<close> and \<open>d.get(k, default)\<close>; \<open>k in d\<close>.\<close>

definition get :: "part \<Rightarrow> string \<Rightarrow> val" where
  "get p k = (case map_of p k of None \<Rightarrow> VNone | Some v \<Rightarrow> v)"

definition getd :: "part \<Rightarrow> string \<Rightarrow> val \<Rightarrow> val" where
  "getd p k d = (case map_of p k of None \<Rightarrow> d | Some v \<Rightarrow> v)"

definition has_key :: "part \<Rightarrow> string \<Rightarrow> bool" where
  "has_key p k = (map_of p k \<noteq> None)"

text \<open>A part slot holds a dictionary or \<open>None\<close>; \<open>if cpu:\<close> is false for both
  \<open>None\<close> and the empty dictionary.\<close>

fun present :: "part option \<Rightarrow> bool" where
  "present None = False"
| "present (Some p) = (p \<noteq> [])"

section \<open>Strings\<close>

definition is_space :: "char \<Rightarrow> bool" where
  "is_space c = (c \<in> set [CHR '' '', CHR 0x09, CHR 0x0A, CHR 0x0B, CHR 0x0C, CHR 0x0D,
                          CHR 0x1C, CHR 0x1D, CHR 0x1E, CHR 0x1F])"

definition is_digit :: "char \<Rightarrow> bool" where
  "is_digit c = (c \<in> set ''0123456789'')"

definition lower_char :: "char \<Rightarrow> char" where
  "lower_char c =
     (case map_of (zip ''ABCDEFGHIJKLMNOPQRSTUVWXYZ'' ''abcdefghijklmnopqrstuvwxyz'') c of
        None \<Rightarrow> c | Some d \<Rightarrow> d)"

definition lower :: "string \<Rightarrow> string" where
  "lower s = map lower_char s"

definition is_word_char :: "char \<Rightarrow> bool" where
  "is_word_char c =
     (c \<in> set ''abcdefghijklmnopqrstuvwxyzABCDEFGHIJKLMNOPQRSTUVWXYZ0123456789_'')"

text \<open>\<open>s.startswith(p)\<close>\<close>

fun startswith :: "string \<Rightarrow> string \<Rightarrow> bool" where
  "startswith s [] = True"
| "startswith [] (p # ps) = False"
| "startswith (c # s) (p # ps) = (c = p \<and> startswith s ps)"

text \<open>\<open>sub in s\<close> for two strings\<close>

fun str_in :: "string \<Rightarrow> string \<Rightarrow> bool" where
  "str_in sub [] = (sub = [])"
| "str_in sub (c # s) = (startswith (c # s) sub \<or> str_in sub s)"

text \<open>\<open>re.search(r'lga(\d+)', s)\<close>: the leftmost \<open>lga\<close> that a digit follows; the
  group is the whole run of digits after it.\<close>

fun search_lga :: "string \<Rightarrow> string option" where
  "search_lga [] = None"
| "search_lga (c # s) =
     (if startswith (c # s) ''lga'' \<and> takeWhile is_digit (drop 3 (c # s)) \<noteq> []
      then Some (takeWhile is_digit (drop 3 (c # s)))
      else search_lga s)"

text \<open>\<open>re.search(r'(\d{4})', s)\<close>: the leftmost four consecutive digits.\<close>

fun search_d4 :: "string \<Rightarrow> string option" where
  "search_d4 [] = None"
| "search_d4 (c # s) =
     (if 4 \<le> length (c # s) \<and> list_all is_digit (take 4 (c # s))
      then Some (take 4 (c # s))
      else search_d4 s)"

text \<open>\<open>s.replace(old, "")\<close> for a non-empty \<open>old\<close>: occurrences are removed from
  left to right without overlap.\<close>

function remove_all :: "string \<Rightarrow> string \<Rightarrow> string" where
  "remove_all old [] = []"
| "remove_all old (c # s) =
     (if old \<noteq> [] \<and> startswith (c # s) old
      then remove_all old (drop (length old) (c # s))
      else c # remove_all old s)"
  by pat_completeness auto
termination
  by (relation "measure (\<lambda>(old, s). length s)") auto

section \<open>Socket normalisation (checker.py, autobuilder.py, database.py)\<close>

text \<open>The three copies of \<open>_normalize_socket\<close> in the source are the same text. The
  argument is a string here; what the callers do with a value that is not a string is
  written at each call.\<close>

definition normalize_socket :: "string \<Rightarrow> string option" where
  "normalize_socket socket_str =
     (if socket_str = [] then None
      else let s = lower (filter (\<lambda>c. \<not> is_space c) socket_str) in
        if str_in ''am4'' s then Some ''am4''
        else if str_in ''am5'' s then Some ''am5''
        else if str_in ''lga'' s then
          (case search_lga s of Some g \<Rightarrow> Some g | None \<Rightarrow> Some s)
        else if str_in ''intel'' s \<or> str_in ''socket'' s then
          (case search_d4 s of Some g \<Rightarrow> Some g | None \<Rightarrow> Some s)
        else Some (remove_all ''socket'' (remove_all ''intel'' (remove_all ''amd'' s))))"

section \<open>Conversions\<close>

text \<open>Sequencing of computations that may raise.\<close>

definition ebind :: "error + 'a \<Rightarrow> ('a \<Rightarrow> error + 'b) \<Rightarrow> error + 'b" where
  "ebind m f = (case m of Inl e \<Rightarrow> Inl e | Inr x \<Rightarrow> f x)"

definition digit_val :: "char \<Rightarrow> int" where
  "digit_val c =
     (case map_of (zip ''0123456789'' [0, 1, 2, 3, 4, 5, 6, 7, 8, 9]) c of
        None \<Rightarrow> 0 | Some d \<Rightarrow> d)"

definition strip :: "string \<Rightarrow> string" where
  "strip s = rev (dropWhile is_space (rev (dropWhile is_space s)))"

text \<open>The digits of an integer literal: digits, with single underscores between them.\<close>

fun no_double_underscore :: "string \<Rightarrow> bool" where
  "no_double_underscore (a # b # s) =
     (\<not> (a = CHR ''_'' \<and> b = CHR ''_'') \<and> no_double_underscore (b # s))"
| "no_double_underscore s = True"

definition valid_digits :: "string \<Rightarrow> bool" where
  "valid_digits s =
     (s \<noteq> [] \<and> list_all (\<lambda>c. is_digit c \<or> c = CHR ''_'') s
      \<and> is_digit (hd s) \<and> is_digit (last s) \<and> no_double_underscore s)"

definition parse_digits :: "string \<Rightarrow> int" where
  "parse_digits s = foldl (\<lambda>n c. 10 * n + digit_val c) 0 (filter is_digit s)"

text \<open>\<open>int(s)\<close> for a string: surrounding whitespace, an optional sign, decimal
  digits. \<open>None\<close> is Python's ValueError.\<close>

definition int_of_string :: "string \<Rightarrow> int option" where
  "int_of_string s =
     (case strip s of
        [] \<Rightarrow> None
      | c # r \<Rightarrow>
          if c = CHR ''-'' then (if valid_digits r then Some (- parse_digits r) else None)
          else if c = CHR ''+'' then (if valid_digits r then Some (parse_digits r) else None)
          else if valid_digits (c # r) then Some (parse_digits (c # r)) else None)"

text \<open>\<open>int(v)\<close>\<close>

fun py_int :: "val \<Rightarrow> error + int" where
  "py_int (VInt n) = Inr n"
| "py_int (VStr s) = (case int_of_string s of None \<Rightarrow> Inl ValueError | Some n \<Rightarrow> Inr n)"
| "py_int VNone = Inl TypeError"
| "py_int (VInts xs) = Inl TypeError"

text \<open>\<open>int(x)\<close> for a float: truncation towards zero.\<close>

definition trunc :: "rat \<Rightarrow> int" where
  "trunc x = (if 0 \<le> x then \<lfloor>x\<rfloor> else \<lceil>x\<rceil>)"

text \<open>\<open>str(n)\<close> for an integer.\<close>

definition digit_char :: "nat \<Rightarrow> char" where
  "digit_char n = ''0123456789'' ! (n mod 10)"

function str_nat :: "nat \<Rightarrow> string" where
  "str_nat n = (if n < 10 then [digit_char n] else str_nat (n div 10) @ [digit_char n])"
  by pat_completeness auto
termination
  by (relation "measure id") auto

declare str_nat.simps [simp del]

definition str_int :: "int \<Rightarrow> string" where
  "str_int i = (if i < 0 then CHR ''-'' # str_nat (nat (- i)) else str_nat (nat i))"

fun join_comma :: "string list \<Rightarrow> string" where
  "join_comma [] = []"
| "join_comma [s] = s"
| "join_comma (s # t # ss) = s @ '', '' @ join_comma (t # ss)"

text \<open>What an f-string prints for a value.\<close>

fun py_str :: "val \<Rightarrow> string" where
  "py_str VNone = ''None''"
| "py_str (VInt n) = str_int n"
| "py_str (VStr s) = s"
| "py_str (VInts xs) = ''['' @ join_comma (map str_int xs) @ '']''"

text \<open>\<open>v[0]\<close>\<close>

fun index0 :: "val \<Rightarrow> error + val" where
  "index0 (VInts (x # xs)) = Inr (VInt x)"
| "index0 (VInts []) = Inl IndexError"
| "index0 (VStr (c # s)) = Inr (VStr [c])"
| "index0 (VStr []) = Inl IndexError"
| "index0 VNone = Inl TypeError"
| "index0 (VInt n) = Inl TypeError"

text \<open>\<open>sub in v\<close> for a string \<open>sub\<close>: substring of a string, membership in a list
  (a string is never equal to an integer), TypeError otherwise.\<close>

fun str_in_val :: "string \<Rightarrow> val \<Rightarrow> error + bool" where
  "str_in_val sub (VStr s) = Inr (str_in sub s)"
| "str_in_val sub (VInts xs) = Inr False"
| "str_in_val sub VNone = Inl TypeError"
| "str_in_val sub (VInt n) = Inl TypeError"

text \<open>\<open>_normalize_socket(v)\<close> on a value: a false value gives \<open>None\<close> before the
  regular expression is reached, a true value that is not a string makes \<open>re.sub\<close>
  raise.\<close>

definition normalize_socket_val :: "val \<Rightarrow> error + string option" where
  "normalize_socket_val v =
     (if \<not> truthy v then Inr None
      else case v of VStr s \<Rightarrow> Inr (normalize_socket s) | _ \<Rightarrow> Inl TypeError)"

section \<open>PartDatabase (database.py)\<close>

text \<open>
  \<open>data\<close> maps a file name to its list of records. \<open>master_spec_maps\<close> maps
  \<open>cpu\<close> and \<open>gpu\<close> to a dictionary from keyword sets to master records; a Python
  dictionary keeps its keys in insertion order and an assignment to an existing key
  keeps the key's place, which is what \<open>AList.update\<close> does.
\<close>

record database =
  data :: "(string \<times> part list) list"
  master_spec_maps :: "(string \<times> (string set \<times> part) list) list"

text \<open>\<open>re.findall(r'\b\w+\b', s)\<close>: the maximal runs of word characters, from left
  to right. The first argument is the run being read.\<close>

fun findall_words :: "string \<Rightarrow> string \<Rightarrow> string list" where
  "findall_words cur [] = (if cur = [] then [] else [cur])"
| "findall_words cur (c # s) =
     (if is_word_char c then findall_words (cur @ [c]) s
      else (if cur = [] then [] else [cur]) @ findall_words [] s)"

definition junk_words :: "string set" where
  "junk_words = set [''amd'', ''intel'', ''geforce'', ''radeon'', ''gb'', ''tb'', ''mhz'',
                     ''ddr4'', ''ddr5'', ''nvidia'']"

definition normalize_search_term :: "string \<Rightarrow> string set" where
  "normalize_search_term term = set (findall_words [] (lower term)) - junk_words"

text \<open>\<open>normalize_search_term(v)\<close> on a value: \<open>v.lower()\<close> exists for strings
  only.\<close>

fun normalize_search_val :: "val \<Rightarrow> error + string set" where
  "normalize_search_val (VStr s) = Inr (normalize_search_term s)"
| "normalize_search_val v = Inl AttributeError"

text \<open>The loop of \<open>build_master_spec_maps\<close> over one master list.\<close>

fun build_map ::
  "part list \<Rightarrow> (string set \<times> part) list \<Rightarrow> error + (string set \<times> part) list" where
  "build_map [] m = Inr m"
| "build_map (p # ps) m =
     ebind (normalize_search_val (getd p ''Name'' (VStr [])))
       (\<lambda>key. build_map ps (AList.update key p m))"

definition build_master_spec_maps ::
  "(string \<times> part list) list \<Rightarrow> error + (string \<times> (string set \<times> part) list) list" where
  "build_master_spec_maps d =
     ebind (case map_of d ''master_cpu_database'' of
              None \<Rightarrow> Inr []
            | Some ps \<Rightarrow> ebind (build_map ps []) (\<lambda>m. Inr [(''cpu'', m)]))
       (\<lambda>m1. case map_of d ''master_gpu_database'' of
                None \<Rightarrow> Inr m1
              | Some ps \<Rightarrow> ebind (build_map ps []) (\<lambda>m. Inr (m1 @ [(''gpu'', m)])))"

text \<open>\<open>__init__\<close>, given the loaded files.\<close>

definition init_database :: "(string \<times> part list) list \<Rightarrow> error + database" where
  "init_database d =
     ebind (build_master_spec_maps d) (\<lambda>m. Inr \<lparr>data = d, master_spec_maps = m\<rparr>)"

text \<open>The two tests of \<open>find_master_spec\<close>: \<open>master_key_set.issubset(search_words)\<close>
  and \<open>all(word in search_words for word in master_key_set)\<close>.\<close>

definition primary_rule :: "string set \<Rightarrow> string set \<Rightarrow> bool" where
  "primary_rule master_key_set search_words = (master_key_set \<subseteq> search_words)"

definition fallback_rule :: "string set \<Rightarrow> string set \<Rightarrow> bool" where
  "fallback_rule master_key_set search_words =
     (\<forall>word \<in> master_key_set. word \<in> search_words)"

definition find_master_spec :: "database \<Rightarrow> string \<Rightarrow> val \<Rightarrow> val \<Rightarrow> error + part option" where
  "find_master_spec db master_db_key product_name product_chipset =
     (let map_key = (if str_in ''cpu'' master_db_key then ''cpu'' else ''gpu'') in
      case map_of (master_spec_maps db) map_key of
        None \<Rightarrow> Inr None
      | Some m \<Rightarrow>
          ebind (normalize_search_val (py_or product_chipset product_name))
            (\<lambda>search_words.
               if search_words = {} then Inr None
               else case find (\<lambda>(k, master_part). primary_rule k search_words) m of
                 Some (k, master_part) \<Rightarrow> Inr (Some master_part)
               | None \<Rightarrow>
                   (case find (\<lambda>(k, master_part). fallback_rule k search_words) m of
                      Some (k, master_part) \<Rightarrow> Inr (Some master_part)
                    | None \<Rightarrow> Inr None)))"

text \<open>The inner loop of \<open>enrich_product_database\<close>: copy the listed keys that the
  master record has.\<close>

definition copy_specs :: "part \<Rightarrow> string list \<Rightarrow> part \<Rightarrow> part" where
  "copy_specs master_spec specs_to_copy product =
     fold (\<lambda>spec_key p. case map_of master_spec spec_key of
                           None \<Rightarrow> p
                         | Some v \<Rightarrow> AList.update spec_key v p)
          specs_to_copy product"

text \<open>The body of the outer loop, for one product.\<close>

definition enrich_product ::
  "database \<Rightarrow> string \<Rightarrow> string \<Rightarrow> string \<Rightarrow> string list \<Rightarrow> part \<Rightarrow> error + part" where
  "enrich_product db product_key master_db_key match_field specs_to_copy product =
     (let search_term = get product match_field;
          search_term = (if \<not> truthy search_term \<and> product_key = ''video-card''
                         then get product ''chipset'' else search_term)
      in if \<not> truthy search_term then Inr product
         else ebind (find_master_spec db master_db_key (get product ''name'')
                       (get product ''chipset''))
                (\<lambda>master_spec. case master_spec of
                     None \<Rightarrow> Inr product
                   | Some ms \<Rightarrow> if ms = [] then Inr product
                               else Inr (copy_specs ms specs_to_copy product)))"

fun enrich_all ::
  "database \<Rightarrow> string \<Rightarrow> string \<Rightarrow> string \<Rightarrow> string list \<Rightarrow> part list \<Rightarrow> error + part list"
where
  "enrich_all db product_key master_db_key match_field specs_to_copy [] = Inr []"
| "enrich_all db product_key master_db_key match_field specs_to_copy (p # ps) =
     ebind (enrich_product db product_key master_db_key match_field specs_to_copy p)
       (\<lambda>p'. ebind (enrich_all db product_key master_db_key match_field specs_to_copy ps)
                (\<lambda>ps'. Inr (p' # ps')))"

text \<open>
  \<open>enrich_product_database\<close> changes the records of \<open>data[product_key]\<close> in place. The
  master dictionaries were built before and hold the master records themselves; the
  model keeps them as they are, which is what the source does whenever
  \<open>product_key\<close> is not one of the two master lists.
\<close>

definition enrich_product_database ::
  "database \<Rightarrow> string \<Rightarrow> string \<Rightarrow> string \<Rightarrow> string list \<Rightarrow> error + database" where
  "enrich_product_database db product_key master_db_key match_field specs_to_copy =
     (case map_of (data db) product_key of
        None \<Rightarrow> Inr db
      | Some products \<Rightarrow>
          if map_of (data db) master_db_key = None then Inr db
          else ebind (enrich_all db product_key master_db_key match_field specs_to_copy products)
                 (\<lambda>ps'. Inr (db\<lparr>data := AList.update product_key ps' (data db)\<rparr>)))"

text \<open>The constraint dictionary built by \<open>_get_constraints\<close>: at most three keys.\<close>

record constraints =
  socket :: "string option"
  memory_type :: "string option"
  estimated_power :: "int option"

definition no_constraints :: constraints where
  "no_constraints = \<lparr>socket = None, memory_type = None, estimated_power = None\<rparr>"

text \<open>The three checks of \<open>passes_constraints\<close>; each gives \<open>False\<close> where the source
  returns \<open>False\<close> and \<open>True\<close> where it goes on to the next check.\<close>

definition check_socket :: "part \<Rightarrow> constraints \<Rightarrow> error + bool" where
  "check_socket p cs =
     (case socket cs of
        None \<Rightarrow> Inr True
      | Some c \<Rightarrow>
          let part_socket_raw = py_or (get p ''socket'') (get p ''Physical - Socket'') in
          if truthy part_socket_raw then
            ebind (normalize_socket_val part_socket_raw)
              (\<lambda>part_socket. Inr (part_socket = normalize_socket c))
          else Inr True)"

definition check_memory :: "part \<Rightarrow> constraints \<Rightarrow> error + bool" where
  "check_memory p cs =
     (case memory_type cs of
        None \<Rightarrow> Inr True
      | Some constraint_mem_type \<Rightarrow>
          if has_key p ''speed'' \<and> has_key p ''modules'' then
            ebind (index0 (getd p ''speed'' (VInts [0, 0])))
              (\<lambda>g. if g = VInt 0 then Inr False
                    else Inr (startswith constraint_mem_type (''DDR'' @ py_str g)))
          else if has_key p ''Architecture - Memory Support'' then
            (let part_mem = get p ''Architecture - Memory Support'' in
             if \<not> truthy part_mem then Inr False
             else str_in_val constraint_mem_type part_mem)
          else Inr True)"

definition check_power :: "part \<Rightarrow> constraints \<Rightarrow> bool" where
  "check_power p cs =
     (case estimated_power cs of
        None \<Rightarrow> True
      | Some ep \<Rightarrow>
          if has_key p ''wattage'' then
            (case py_int (getd p ''wattage'' (VInt 0)) of
               Inl e \<Rightarrow> False
             | Inr psu_power \<Rightarrow> \<not> (of_int psu_power * (7 / 10) < (of_int ep :: rat)))
          else True)"

definition passes_constraints :: "part \<Rightarrow> constraints \<Rightarrow> error + bool" where
  "passes_constraints p cs =
     ebind (check_socket p cs)
       (\<lambda>ok. if \<not> ok then Inr False
              else ebind (check_memory p cs)
                     (\<lambda>ok. if \<not> ok then Inr False else Inr (check_power p cs)))"

text \<open>\<open>keyword in part.get(field, '').lower()\<close>\<close>

definition keyword_in_field :: "string \<Rightarrow> part \<Rightarrow> string \<Rightarrow> error + bool" where
  "keyword_in_field keyword p field =
     (case getd p field (VStr []) of
        VStr s \<Rightarrow> Inr (str_in keyword (lower s))
      | _ \<Rightarrow> Inl AttributeError)"

fun search_loop :: "string \<Rightarrow> string \<Rightarrow> constraints \<Rightarrow> part list \<Rightarrow> error + part list" where
  "search_loop part_type keyword cs [] = Inr []"
| "search_loop part_type keyword cs (p # ps) =
     ebind (passes_constraints p cs)
       (\<lambda>ok. if \<not> ok then search_loop part_type keyword cs ps
              else ebind (keyword_in_field keyword p ''name'')
                (\<lambda>name_match.
                   ebind (if part_type = ''video-card''
                          then keyword_in_field keyword p ''chipset'' else Inr False)
                     (\<lambda>chipset_match.
                        ebind (search_loop part_type keyword cs ps)
                          (\<lambda>matches. Inr (if name_match \<or> chipset_match
                                           then p # matches else matches)))))"

definition search_parts ::
  "database \<Rightarrow> string \<Rightarrow> string \<Rightarrow> constraints \<Rightarrow> error + part list" where
  "search_parts db part_type keyword cs =
     (case map_of (data db) part_type of
        None \<Rightarrow> Inr []
      | Some ps \<Rightarrow> search_loop part_type (lower keyword) cs ps)"

section \<open>PartList (partlist.py)\<close>

record partlist =
  parts :: "(string \<times> part option) list"

definition new_partlist :: partlist where
  "new_partlist = \<lparr>parts = [(''cpu'', None), (''gpu'', None), (''motherboard'', None),
                            (''ram'', None), (''psu'', None), (''case'', None)]\<rparr>"

text \<open>\<open>part_list.parts.get(k)\<close>\<close>

definition slot :: "partlist \<Rightarrow> string \<Rightarrow> part option" where
  "slot pl k = (case map_of (parts pl) k of None \<Rightarrow> None | Some v \<Rightarrow> v)"

text \<open>\<open>add_part\<close> stores the part and then prints \<open>part_data['name']\<close>, which raises
  KeyError for a record without a name.\<close>

definition add_part :: "partlist \<Rightarrow> string \<Rightarrow> part \<Rightarrow> error + partlist" where
  "add_part pl part_type part_data =
     (if map_of (parts pl) part_type \<noteq> None then
        (if has_key part_data ''name''
         then Inr (pl\<lparr>parts := AList.update part_type (Some part_data) (parts pl)\<rparr>)
         else Inl KeyError)
      else Inr pl)"

section \<open>Messages\<close>

text \<open>
  The strings the engine returns, one constructor for each format string, with the
  values the string shows:
  \<^item> \<open>SocketNotChecked\<close>: Could not check CPU-Mobo socket;
  \<^item> \<open>SocketMismatch c m\<close>: INCOMPATIBLE: CPU socket (c) does not match motherboard socket (m);
  \<^item> \<open>MemoryNotChecked\<close>: Could not check RAM-CPU type;
  \<^item> \<open>MemoryMismatch r s\<close>: INCOMPATIBLE: RAM type (r) does not match CPU/Mobo support (s);
  \<^item> \<open>PsuNotChecked\<close>: Could not check PSU (PSU DB missing 'wattage');
  \<^item> \<open>PsuRisky t w m\<close>: RISKY: Estimated power draw (~tW) is >70% of PSU capacity (wW)!
    Recommend at least mW;
  \<^item> \<open>PsuExceeded t w\<close>: INCOMPATIBLE: Estimated power draw (tW) exceeds PSU capacity (wW);
  \<^item> \<open>PsuCheckFailed e\<close>: Could not check PSU wattage: e;
  \<^item> \<open>NoCpu\<close>: Failed to find a CPU within budget;
  \<^item> \<open>NoMobo n s\<close>: Failed to find a compatible Mobo for n (Socket: s);
  \<^item> \<open>NoRam t\<close>: Failed to find compatible RAM (Type: t);
  \<^item> \<open>NoGpu\<close>: Failed to find a GPU within budget;
  \<^item> \<open>NoPsu\<close>: Failed to find a suitable PSU.
\<close>

datatype message =
    SocketNotChecked
  | SocketMismatch "string option" "string option"
  | MemoryNotChecked
  | MemoryMismatch string string
  | PsuNotChecked
  | PsuRisky int int int
  | PsuExceeded int int
  | PsuCheckFailed error
  | NoCpu
  | NoMobo string "string option"
  | NoRam "string option"
  | NoGpu
  | NoPsu

section \<open>CompatibilityChecker (checker.py)\<close>

text \<open>\<open>int(p.get(key, 0)) if p else 0\<close>\<close>

definition tdp_of :: "part option \<Rightarrow> string \<Rightarrow> error + int" where
  "tdp_of p key =
     (case p of
        None \<Rightarrow> Inr 0
      | Some d \<Rightarrow> if d = [] then Inr 0 else py_int (getd d key (VInt 0)))"

definition socket_rule :: "partlist \<Rightarrow> error + message list" where
  "socket_rule pl =
     (case (slot pl ''cpu'', slot pl ''motherboard'') of
        (Some cpu, Some mobo) \<Rightarrow>
          if cpu \<noteq> [] \<and> mobo \<noteq> [] then
            (let cpu_socket_raw = py_or (get cpu ''Physical - Socket'') (get cpu ''socket'');
                 mobo_socket_raw = py_or (get mobo ''socket'') (get mobo ''Physical - Socket'')
             in if \<not> truthy cpu_socket_raw \<or> \<not> truthy mobo_socket_raw
                then Inr [SocketNotChecked]
                else ebind (normalize_socket_val cpu_socket_raw)
                  (\<lambda>cpu_socket. ebind (normalize_socket_val mobo_socket_raw)
                     (\<lambda>mobo_socket. Inr (if cpu_socket \<noteq> mobo_socket
                                          then [SocketMismatch cpu_socket mobo_socket]
                                          else []))))
          else Inr []
      | _ \<Rightarrow> Inr [])"

definition memory_rule :: "partlist \<Rightarrow> error + message list" where
  "memory_rule pl =
     (let cpu = slot pl ''cpu''; mobo = slot pl ''motherboard'' in
      case slot pl ''ram'' of
        None \<Rightarrow> Inr []
      | Some ram \<Rightarrow>
          if ram \<noteq> [] \<and> (present cpu \<or> present mobo) then
            ebind (index0 (getd ram ''speed'' (VInts [0, 0])))
              (\<lambda>g. let ram_type = ''DDR'' @ py_str g;
                        mem_support =
                          (case cpu of
                             Some c \<Rightarrow> if c \<noteq> []
                                       then getd c ''Architecture - Memory Support''
                                              (VStr ''NOT_FOUND'')
                                       else VStr ''NOT_FOUND''
                           | None \<Rightarrow> VStr ''NOT_FOUND'')
                    in ebind (str_in_val ''NOT_FOUND'' mem_support)
                      (\<lambda>missing.
                         let mem_support =
                               (case mobo of
                                  Some m \<Rightarrow> if missing \<and> m \<noteq> []
                                            then getd m ''Architecture - Memory Support''
                                                   (VStr ''NOT_FOUND'')
                                            else mem_support
                                | None \<Rightarrow> mem_support)
                         in ebind (str_in_val ''NOT_FOUND'' mem_support)
                           (\<lambda>missing. if missing then Inr [MemoryNotChecked]
                              else ebind (str_in_val ram_type mem_support)
                                (\<lambda>ok. Inr (if \<not> ok
                                             then [MemoryMismatch ram_type (py_str mem_support)]
                                             else [])))))
          else Inr [])"

text \<open>The power rule runs inside \<open>try\<close>; whatever is raised becomes a message.\<close>

definition power_rule :: "partlist \<Rightarrow> message list" where
  "power_rule pl =
     (let cpu = slot pl ''cpu''; gpu = slot pl ''gpu'' in
      if present (slot pl ''psu'') \<and> (present cpu \<or> present gpu) then
        (case ebind (tdp_of cpu ''Performance - TDP'')
                (\<lambda>cpu_power. ebind (tdp_of gpu ''Board Design - TDP'')
                   (\<lambda>gpu_power. ebind (tdp_of (slot pl ''psu'') ''wattage'')
                      (\<lambda>psu_power. Inr (cpu_power + gpu_power + 100, psu_power)))) of
           Inl e \<Rightarrow> [PsuCheckFailed e]
         | Inr (total_power, psu_power) \<Rightarrow>
             if psu_power = 0 then [PsuNotChecked]
             else if of_int psu_power * (7 / 10) < (of_int total_power :: rat)
             then [PsuRisky total_power psu_power (trunc (of_int total_power / (7 / 10)))]
             else if total_power > psu_power then [PsuExceeded total_power psu_power]
             else [])
      else [])"

definition check_build :: "partlist \<Rightarrow> error + message list" where
  "check_build pl =
     ebind (socket_rule pl)
       (\<lambda>w1. ebind (memory_rule pl) (\<lambda>w2. Inr (w1 @ w2 @ power_rule pl)))"

section \<open>AutoBuilder (autobuilder.py)\<close>




definition socket_constraint :: "partlist \<Rightarrow> error + string option" where
  "socket_constraint build =
     (if present (slot build ''cpu'') then
        (case slot build ''cpu'' of
           None \<Rightarrow> Inr None
         | Some cpu \<Rightarrow>
             let cpu_socket = get cpu ''Physical - Socket'' in
             if truthy cpu_socket then normalize_socket_val cpu_socket else Inr None)
      else if present (slot build ''motherboard'') then
        (case slot build ''motherboard'' of
           None \<Rightarrow> Inr None
         | Some mobo \<Rightarrow>
             let mobo_socket = get mobo ''socket'' in
             if truthy mobo_socket then normalize_socket_val mobo_socket else Inr None)
      else Inr None)"

definition memory_constraint :: "partlist \<Rightarrow> error + string option" where
  "memory_constraint build =
     (case slot build ''cpu'' of
        None \<Rightarrow> Inr None
      | Some cpu \<Rightarrow>
          if cpu = [] then Inr None
          else let mem_support = get cpu ''Architecture - Memory Support'' in
            if \<not> truthy mem_support then Inr None
            else ebind (str_in_val ''DDR5'' mem_support)
              (\<lambda>ddr5. if ddr5 then Inr (Some ''DDR5'')
                 else ebind (str_in_val ''DDR4'' mem_support)
                   (\<lambda>ddr4. if ddr4 then Inr (Some ''DDR4'')
                      else case mem_support of
                        VStr s \<Rightarrow> Inr (Some (strip (takeWhile (\<lambda>c. c \<noteq> CHR '','') s)))
                      | _ \<Rightarrow> Inl AttributeError)))"

text \<open>The power constraint is computed inside \<open>try\<close> with \<open>except Exception: pass\<close>.\<close>

definition power_constraint :: "partlist \<Rightarrow> int option" where
  "power_constraint build =
     (case ebind (tdp_of (slot build ''cpu'') ''Performance - TDP'')
             (\<lambda>cpu_power. ebind (tdp_of (slot build ''gpu'') ''Board Design - TDP'')
                (\<lambda>gpu_power. Inr (cpu_power, gpu_power))) of
        Inl e \<Rightarrow> None
      | Inr (cpu_power, gpu_power) \<Rightarrow>
          if cpu_power > 0 \<or> gpu_power > 0 then Some (cpu_power + gpu_power + 100)
          else None)"

definition get_constraints :: "partlist \<Rightarrow> error + constraints" where
  "get_constraints build =
     ebind (socket_constraint build)
       (\<lambda>s. ebind (memory_constraint build)
          (\<lambda>m. Inr \<lparr>socket = s, memory_type = m,
                     estimated_power = power_constraint build\<rparr>))"

text \<open>\<open>[p for p in all_parts if p.get('price') and p.get('price') <= budget]\<close>, each
  part kept with its price; a price that is true but not a number cannot be compared.\<close>

fun affordable :: "rat \<Rightarrow> part list \<Rightarrow> error + (int \<times> part) list" where
  "affordable budget [] = Inr []"
| "affordable budget (p # ps) =
     (let price = get p ''price'' in
      if \<not> truthy price then affordable budget ps
      else case price of
        VInt n \<Rightarrow> ebind (affordable budget ps)
                   (\<lambda>r. Inr (if of_int n \<le> budget then (n, p) # r else r))
      | _ \<Rightarrow> Inl TypeError)"

text \<open>\<open>[p for p in affordable_parts if "DDR5" in p.get('Architecture - Memory Support', '')]\<close>\<close>

fun ddr5_parts :: "(int \<times> part) list \<Rightarrow> error + (int \<times> part) list" where
  "ddr5_parts [] = Inr []"
| "ddr5_parts (x # xs) =
     ebind (str_in_val ''DDR5'' (getd (snd x) ''Architecture - Memory Support'' (VStr [])))
       (\<lambda>b. ebind (ddr5_parts xs) (\<lambda>r. Inr (if b then x # r else r)))"

text \<open>\<open>sorted(xs, key=price, reverse=True)\<close>: Python reverses, sorts stably, and
  reverses again, so equal prices keep their order.\<close>

definition sorted_reverse :: "(int \<times> part) list \<Rightarrow> (int \<times> part) list" where
  "sorted_reverse xs = rev (sort_key fst (rev xs))"

definition pick_part :: "database \<Rightarrow> string \<Rightarrow> rat \<Rightarrow> constraints \<Rightarrow> error + part option" where
  "pick_part db json_key budget cs =
     ebind (search_parts db json_key [] cs)
       (\<lambda>all_parts. ebind (affordable budget all_parts)
          (\<lambda>affordable_parts.
             if affordable_parts = [] then Inr None
             else ebind (if json_key = ''cpu''
                         then ebind (ddr5_parts affordable_parts)
                                (\<lambda>d. Inr (if d \<noteq> [] then d else affordable_parts))
                         else Inr affordable_parts)
               (\<lambda>affordable_parts.
                  case sorted_reverse affordable_parts of
                    [] \<Rightarrow> Inl IndexError
                  | best # rest \<Rightarrow> Inr (Some (snd best)))))"


text \<open>\<open>part['name']\<close>\<close>

definition name_of :: "part \<Rightarrow> error + string" where
  "name_of p = (case map_of p ''name'' of None \<Rightarrow> Inl KeyError | Some v \<Rightarrow> Inr (py_str v))"







section \<open>Example builds and catalogues\<close>

text \<open>A build with a CPU of the given TDP and a PSU of the given wattage.\<close>

definition psu_build :: "int \<Rightarrow> int \<Rightarrow> partlist" where
  "psu_build cpu_tdp w =
     \<lparr>parts = [(''cpu'', Some [(''name'', VStr ''cpu''), (''Performance - TDP'', VInt cpu_tdp)]),
               (''gpu'', None), (''motherboard'', None), (''ram'', None),
               (''psu'', Some [(''name'', VStr ''psu''), (''wattage'', VInt w)]),
               (''case'', None)]\<rparr>"

text \<open>A build with a CPU and a GPU whose TDP fields hold the given values.\<close>

definition tdp_build :: "val \<Rightarrow> val \<Rightarrow> partlist" where
  "tdp_build cpu_tdp gpu_tdp =
     \<lparr>parts = [(''cpu'', Some [(''name'', VStr ''cpu''), (''Performance - TDP'', cpu_tdp)]),
               (''gpu'', Some [(''name'', VStr ''gpu''), (''Board Design - TDP'', gpu_tdp)]),
               (''motherboard'', None), (''ram'', None), (''psu'', None), (''case'', None)]\<rparr>"

text \<open>A constraint set with the memory type only, and three records: a RAM stick of a
  given generation, a board with a given memory-support field, and a case.\<close>

definition memory_only :: "string \<Rightarrow> constraints" where
  "memory_only c = \<lparr>socket = None, memory_type = Some c, estimated_power = None\<rparr>"

definition ram_stick :: "int \<Rightarrow> part" where
  "ram_stick g = [(''name'', VStr ''stick''), (''price'', VInt 100),
                  (''speed'', VInts [g, 6000]), (''modules'', VInts [2, 16])]"

definition board :: "string \<Rightarrow> part" where
  "board support = [(''name'', VStr ''board''), (''price'', VInt 120),
                    (''Architecture - Memory Support'', VStr support)]"

definition tower :: part where
  "tower = [(''name'', VStr ''tower''), (''price'', VInt 60)]"

text \<open>Two master GPU records and one listed card; the first master record carries a
  \<open>chipset\<close> field that names the second. The list of keys is the one \<open>app.py\<close> passes
  for video cards.\<close>

definition gpu_files :: "(string \<times> part list) list" where
  "gpu_files =
     [(''video-card'', [[(''name'', VStr ''card''), (''chipset'', VStr ''GeForce RTX 4060'')]]),
      (''master_gpu_database'',
         [[(''Name'', VStr ''RTX 4060''), (''chipset'', VStr ''RTX 4070''),
           (''Board Design - TDP'', VInt 115)],
          [(''Name'', VStr ''RTX 4070''), (''Board Design - TDP'', VInt 200)]])]"

definition gpu_specs :: "string list" where
  "gpu_specs = [''Board Design - TDP'', ''Memory - Memory Size'', ''chipset'']"

definition gpu_specs_main :: "string list" where
  "gpu_specs_main = [''Board Design - TDP'', ''Memory - Memory Size'']"

text \<open>The listed cards after enriching once and after enriching twice.\<close>

definition enrich_once_twice ::
  "(string \<times> part list) list \<Rightarrow> string list \<Rightarrow> error + part list option \<times> part list option"
where
  "enrich_once_twice files specs =
     ebind (init_database files)
       (\<lambda>db. ebind (enrich_product_database db ''video-card'' ''master_gpu_database''
                      ''name'' specs)
          (\<lambda>db1. ebind (enrich_product_database db1 ''video-card'' ''master_gpu_database''
                          ''name'' specs)
             (\<lambda>db2. Inr (map_of (data db1) ''video-card'',
                          map_of (data db2) ''video-card''))))"

section \<open>The pick rule, as the specification words it\<close>

text \<open>The records of a category, in catalogue order; an unknown category has none.\<close>

definition catalogue :: "database \<Rightarrow> string \<Rightarrow> part list" where
  "catalogue db key = (case map_of (data db) key of None \<Rightarrow> [] | Some ps \<Rightarrow> ps)"

text \<open>A record with a nonzero price that is at most the budget, with that price.\<close>

definition in_budget :: "rat \<Rightarrow> part \<Rightarrow> (int \<times> part) option" where
  "in_budget budget p =
     (case get p ''price'' of
        VInt n \<Rightarrow> if n \<noteq> 0 \<and> of_int n \<le> budget then Some (n, p) else None
      | _ \<Rightarrow> None)"

text \<open>The survivors: the records of the category that pass the constraint set and have
  a nonzero price within the budget, in catalogue order.\<close>

definition survivors :: "database \<Rightarrow> string \<Rightarrow> rat \<Rightarrow> constraints \<Rightarrow> (int \<times> part) list" where
  "survivors db key budget cs =
     List.map_filter (in_budget budget)
       (filter (\<lambda>p. passes_constraints p cs = Inr True) (catalogue db key))"

definition mentions_ddr5 :: "int \<times> part \<Rightarrow> bool" where
  "mentions_ddr5 x =
     (str_in_val ''DDR5'' (getd (snd x) ''Architecture - Memory Support'' (VStr [])) = Inr True)"

text \<open>The records the choice is made among: for the CPU category the survivors that
  mention DDR5 if there are any, and all survivors otherwise.\<close>

definition candidates :: "database \<Rightarrow> string \<Rightarrow> rat \<Rightarrow> constraints \<Rightarrow> (int \<times> part) list" where
  "candidates db key budget cs =
     (let s = survivors db key budget cs; d = filter mentions_ddr5 s
      in if key = ''cpu'' \<and> d \<noteq> [] then d else s)"

text \<open>The first record, in list order, whose price no other record exceeds.\<close>

definition first_highest :: "(int \<times> part) list \<Rightarrow> part option" where
  "first_highest xs = map_option snd (find (\<lambda>x. \<forall>y \<in> set xs. fst y \<le> fst x) xs)"

text \<open>A record as the data model describes it: a name that is a string, a price that
  is a number or absent, socket fields and a chipset that are strings or absent, a
  memory-support field that is a string when present, a speed that is a non-empty list
  of integers when present.\<close>

definition is_str :: "val \<Rightarrow> bool" where
  "is_str v = (case v of VStr s \<Rightarrow> True | _ \<Rightarrow> False)"

definition str_or_none :: "val \<Rightarrow> bool" where
  "str_or_none v = (case v of VStr s \<Rightarrow> True | VNone \<Rightarrow> True | _ \<Rightarrow> False)"

definition int_or_none :: "val \<Rightarrow> bool" where
  "int_or_none v = (case v of VInt n \<Rightarrow> True | VNone \<Rightarrow> True | _ \<Rightarrow> False)"

definition clean_part :: "part \<Rightarrow> bool" where
  "clean_part p =
     ((case map_of p ''name'' of Some (VStr s) \<Rightarrow> True | _ \<Rightarrow> False)
      \<and> is_str (getd p ''chipset'' (VStr []))
      \<and> int_or_none (get p ''price'')
      \<and> str_or_none (get p ''socket'')
      \<and> str_or_none (get p ''Physical - Socket'')
      \<and> (case map_of p ''Architecture - Memory Support'' of
            None \<Rightarrow> True | Some v \<Rightarrow> is_str v)
      \<and> (case map_of p ''speed'' of
            None \<Rightarrow> True | Some (VInts (g # f)) \<Rightarrow> True | Some v \<Rightarrow> False))"

text \<open>A CPU catalogue without a DDR5 processor, and one with two of them.\<close>

definition cpu_record :: "string \<Rightarrow> int \<Rightarrow> string \<Rightarrow> part" where
  "cpu_record n price support =
     [(''name'', VStr n), (''price'', VInt price),
      (''Architecture - Memory Support'', VStr support)]"

definition old_cpus :: database where
  "old_cpus = \<lparr>data = [(''cpu'', [cpu_record ''A'' 100 ''DDR3'', cpu_record ''B'' 50 ''DDR4''])],
               master_spec_maps = []\<rparr>"

definition new_cpus :: database where
  "new_cpus = \<lparr>data = [(''cpu'', [cpu_record ''A'' 100 ''DDR4'',
                                  cpu_record ''B'' 70 ''DDR4, DDR5'',
                                  cpu_record ''C'' 80 ''DDR5'',
                                  cpu_record ''D'' 80 ''DDR5'',
                                  cpu_record ''E'' 300 ''DDR5'',
                                  cpu_record ''F'' 0 ''DDR5''])],
               master_spec_maps = []\<rparr>"

text \<open>A small shop with every category, and the same shop with only an Intel board.\<close>

definition shop_files :: "(string \<times> part list) list" where
  "shop_files =
     [(''cpu'',
         [[(''name'', VStr ''Ryzen 5 7600''), (''price'', VInt 180),
           (''Physical - Socket'', VStr ''AMD Socket AM5''),
           (''Architecture - Memory Support'', VStr ''DDR5''), (''Performance - TDP'', VInt 65)],
          [(''name'', VStr ''Core i5''), (''price'', VInt 190),
           (''Physical - Socket'', VStr ''Intel Socket 1700''),
           (''Architecture - Memory Support'', VStr ''DDR4''),
           (''Performance - TDP'', VStr ''N/A'')]]),
      (''motherboard'',
         [[(''name'', VStr ''B650''), (''price'', VInt 120), (''socket'', VStr ''AM5'')],
          [(''name'', VStr ''Z790''), (''price'', VInt 140), (''socket'', VStr ''LGA1700'')]]),
      (''memory'',
         [[(''name'', VStr ''Fury''), (''price'', VInt 100), (''speed'', VInts [5, 6000]),
           (''modules'', VInts [2, 16])],
          [(''name'', VStr ''Vengeance''), (''price'', VInt 90), (''speed'', VInts [4, 3200]),
           (''modules'', VInts [2, 16])]]),
      (''video-card'',
         [[(''name'', VStr ''RTX''), (''price'', VInt 420), (''chipset'', VStr ''RTX 4060''),
           (''Board Design - TDP'', VInt 200)],
          [(''name'', VStr ''GTX''), (''price'', VInt 400), (''chipset'', VStr ''GTX 1660''),
           (''Board Design - TDP'', VInt 120)]]),
      (''power-supply'',
         [[(''name'', VStr ''P550''), (''price'', VInt 50), (''wattage'', VInt 550)]]),
      (''case'', [[(''name'', VStr ''Box''), (''price'', VInt 60)]])]"


definition intel_board_shop :: database where
  "intel_board_shop =
     \<lparr>data = AList.update ''motherboard''
               [[(''name'', VStr ''Z790''), (''price'', VInt 140), (''socket'', VStr ''LGA1700'')],
                [(''name'', VStr ''X670''), (''price'', VInt 900), (''socket'', VStr ''AM5'')]]
               shop_files,
      master_spec_maps = []\<rparr>"





section \<open>Properties\<close>

subsection \<open>The power rule of the checker\<close>

lemma socket_rule_no_psu:
  "socket_rule pl = Inr ws \<Longrightarrow> PsuExceeded t w \<notin> set ws"
  unfolding socket_rule_def Let_def ebind_def
  by (auto split: option.splits if_splits sum.splits)

lemma memory_rule_no_psu:
  "memory_rule pl = Inr ws \<Longrightarrow> PsuExceeded t w \<notin> set ws"
  unfolding memory_rule_def Let_def ebind_def
  by (auto split: option.splits if_splits sum.splits)

lemma power_rule_exceeded:
  "PsuExceeded t w \<in> set (power_rule pl) \<Longrightarrow>
     w < 0 \<and> tdp_of (slot pl ''psu'') ''wattage'' = Inr w"
  unfolding power_rule_def Let_def ebind_def
  by (auto split: if_splits sum.splits prod.splits)

text \<open>
  C1. The claim: the risky warning names the minimum safe wattage \<open>ceil(t / 0.7)\<close>,
  572 for wattage 500 and total draw 400. The source computes \<open>int(total_power / 0.7)\<close>,
  which truncates: for a CPU of 300 W (total 400) and a 500 W PSU the warning names 571,
  and a PSU of the named 571 W is reported risky again by the same rule, while 572 W
  passes.
\<close>

theorem risky_warning_names_truncated_wattage:
  "check_build (psu_build 300 500) = Inr [PsuRisky 400 500 571]
   \<and> check_build (psu_build 300 571) = Inr [PsuRisky 400 571 571]
   \<and> check_build (psu_build 300 572) = Inr []
   \<and> \<lceil>(400 :: rat) / (7 / 10)\<rceil> = 572"
proof -
  have a: "check_build (psu_build 300 500) = Inr [PsuRisky 400 500 571]" by code_simp
  have b: "check_build (psu_build 300 571) = Inr [PsuRisky 400 571 571]" by code_simp
  have c: "check_build (psu_build 300 572) = Inr []" by code_simp
  have d: "\<lceil>(400 :: rat) / (7 / 10)\<rceil> = 572" by code_simp
  from a b c d show ?thesis by simp
qed

text \<open>
  C10. The claim: the warning that the power draw exceeds the PSU capacity is never
  emitted, for any input. It is emitted for a PSU whose wattage field is negative:
  wattage -10 and a CPU TDP of -108 give a total of -8, which is not above 70% of -10
  and is above -10.
\<close>

theorem psu_exceeded_counterexample:
  "check_build (psu_build (- 108) (- 10)) = Inr [PsuExceeded (- 8) (- 10)]"
  by code_simp

text \<open>
  C10, amended: whenever \<open>check_build\<close> emits the warning that the power draw exceeds
  the PSU capacity, the wattage it read from the PSU is negative; for a PSU wattage of
  zero or more the warning is never emitted.
\<close>

theorem psu_exceeded_needs_negative_wattage:
  assumes "check_build pl = Inr ws" and "PsuExceeded t w \<in> set ws"
  shows "w < 0 \<and> tdp_of (slot pl ''psu'') ''wattage'' = Inr w"
proof -
  from assms(1) obtain w1 w2 where
    s: "socket_rule pl = Inr w1" and m: "memory_rule pl = Inr w2"
    and ws: "ws = w1 @ w2 @ power_rule pl"
    unfolding check_build_def ebind_def by (auto split: sum.splits)
  from assms(2) ws socket_rule_no_psu [OF s] memory_rule_no_psu [OF m]
  have "PsuExceeded t w \<in> set (power_rule pl)" by auto
  then show ?thesis by (rule power_rule_exceeded)
qed

theorem psu_exceeded_needs_negative_wattage_witness:
  "check_build (psu_build (- 120) (- 25)) = Inr [PsuExceeded (- 20) (- 25)]
   \<and> PsuExceeded (- 20) (- 25) \<in> set [PsuExceeded (- 20) (- 25)]
   \<and> (- 25 :: int) < 0
   \<and> tdp_of (slot (psu_build (- 120) (- 25)) ''psu'') ''wattage'' = Inr (- 25)"
proof -
  have a: "check_build (psu_build (- 120) (- 25)) = Inr [PsuExceeded (- 20) (- 25)]"
    by code_simp
  have b: "PsuExceeded (- 20) (- 25) \<in> set [PsuExceeded (- 20) (- 25)]" by simp
  from psu_exceeded_needs_negative_wattage [OF a b] a b show ?thesis by simp
qed

subsection \<open>Keyword matching\<close>

text \<open>
  C8. The claim: for some record and reference entry the fallback rule accepts a match
  that the subset rule rejected. No such pair exists: the two tests of
  \<open>find_master_spec\<close> are the same test.
\<close>

theorem fallback_accepts_more_counterexample:
  "\<not> (\<exists>master_key_set search_words.
         fallback_rule master_key_set search_words
         \<and> \<not> primary_rule master_key_set search_words)"
  by (auto simp: fallback_rule_def primary_rule_def)

text \<open>
  C8, amended: the fallback rule accepts exactly the keyword sets the subset rule
  accepts, so the second loop of \<open>find_master_spec\<close> finds an entry exactly when the
  first loop does, and the same one.
\<close>

theorem fallback_rule_is_subset_rule:
  "fallback_rule k w = primary_rule k w
   \<and> find (\<lambda>(k, master_part). fallback_rule k w) m
       = find (\<lambda>(k, master_part). primary_rule k w) m"
  by (auto simp: fallback_rule_def primary_rule_def subset_eq)

theorem fallback_rule_is_subset_rule_witness:
  "fallback_rule {''rtx'', ''4060''} {''rtx'', ''4060'', ''oc''}
   \<and> primary_rule {''rtx'', ''4060''} {''rtx'', ''4060'', ''oc''}
   \<and> find (\<lambda>(k, master_part). fallback_rule k {''rtx'', ''4060'', ''oc''})
        [({''rtx'', ''4070''}, [(''Name'', VStr ''RTX 4070'')]),
         ({''rtx'', ''4060''}, [(''Name'', VStr ''RTX 4060'')])]
       = Some ({''rtx'', ''4060''}, [(''Name'', VStr ''RTX 4060'')])"
  using fallback_rule_is_subset_rule
    [of "{''rtx'', ''4060''}" "{''rtx'', ''4060'', ''oc''}"
        "[({''rtx'', ''4070''}, [(''Name'', VStr ''RTX 4070'')]),
          ({''rtx'', ''4060''}, [(''Name'', VStr ''RTX 4060'')])]"]
  by (simp add: primary_rule_def)

subsection \<open>The power constraint\<close>

text \<open>
  C2. The claim: an unparseable TDP contributes 0 and never suppresses the computation;
  with the CPU TDP unparseable and the GPU TDP 200 the constraint set holds
  \<open>estimated_power = 300\<close>. In the source both conversions are inside one \<open>try\<close>
  whose handler is \<open>pass\<close>: the ValueError of \<open>int('N/A')\<close> skips the assignment and
  the key is absent.
\<close>

theorem unparseable_tdp_counterexample:
  "tdp_of (slot (tdp_build (VStr ''N/A'') (VInt 200)) ''cpu'') ''Performance - TDP'' = Inl ValueError
   \<and> tdp_of (slot (tdp_build (VStr ''N/A'') (VInt 200)) ''gpu'') ''Board Design - TDP'' = Inr 200
   \<and> get_constraints (tdp_build (VStr ''N/A'') (VInt 200))
       = Inr \<lparr>socket = None, memory_type = None, estimated_power = None\<rparr>"
  by code_simp

lemma tdp_of_absent: "\<not> present p \<Longrightarrow> tdp_of p k = Inr 0"
  by (cases p) (auto simp: tdp_of_def)

text \<open>
  C2, amended: \<open>_get_constraints\<close> raises only what the socket or the memory
  derivation raises, never because of a TDP. When it returns, the constraint set contains
  \<open>estimated_power\<close> exactly when the TDP of the CPU and of the GPU both convert (a
  part that is not selected and a field that is missing count as 0) and one of the two
  is positive; its value is then \<open>cpu_tdp + gpu_tdp + 100\<close>, and a CPU or a GPU is
  selected. A TDP that does not convert leaves the key out and raises nothing.
\<close>

theorem estimated_power_iff:
  "case get_constraints build of
     Inl err \<Rightarrow> socket_constraint build = Inl err \<or> memory_constraint build = Inl err
   | Inr cs \<Rightarrow>
       (\<forall>e. estimated_power cs = Some e \<longleftrightarrow>
           (\<exists>c g. tdp_of (slot build ''cpu'') ''Performance - TDP'' = Inr c
                \<and> tdp_of (slot build ''gpu'') ''Board Design - TDP'' = Inr g
                \<and> (0 < c \<or> 0 < g) \<and> e = c + g + 100))
       \<and> (estimated_power cs \<noteq> None \<longrightarrow>
            present (slot build ''cpu'') \<or> present (slot build ''gpu''))"
proof (cases "get_constraints build")
  case (Inl err)
  then have "socket_constraint build = Inl err \<or> memory_constraint build = Inl err"
    unfolding get_constraints_def ebind_def by (auto split: sum.splits)
  with Inl show ?thesis by simp
next
  case (Inr cs)
  then have ep: "estimated_power cs = power_constraint build"
    unfolding get_constraints_def ebind_def by (auto split: sum.splits)
  have 1: "power_constraint build = Some e \<longleftrightarrow>
           (\<exists>c g. tdp_of (slot build ''cpu'') ''Performance - TDP'' = Inr c
                \<and> tdp_of (slot build ''gpu'') ''Board Design - TDP'' = Inr g
                \<and> (0 < c \<or> 0 < g) \<and> e = c + g + 100)" for e
    unfolding power_constraint_def ebind_def
    by (auto split: sum.splits prod.splits if_splits)
  have 2: "present (slot build ''cpu'') \<or> present (slot build ''gpu'')"
    if "power_constraint build \<noteq> None"
  proof (rule ccontr)
    assume "\<not> ?thesis"
    then have z: "tdp_of (slot build ''cpu'') ''Performance - TDP'' = Inr 0"
      "tdp_of (slot build ''gpu'') ''Board Design - TDP'' = Inr 0"
      by (simp_all add: tdp_of_absent)
    from that obtain e' where "power_constraint build = Some e'" by auto
    with 1 z show False by auto
  qed
  from ep 1 2 Inr show ?thesis by simp
qed

theorem estimated_power_iff_witness:
  "get_constraints (tdp_build (VInt 65) (VInt 200))
     = Inr \<lparr>socket = None, memory_type = None, estimated_power = Some 365\<rparr>
   \<and> (\<exists>c g. tdp_of (slot (tdp_build (VInt 65) (VInt 200)) ''cpu'') ''Performance - TDP'' = Inr c
          \<and> tdp_of (slot (tdp_build (VInt 65) (VInt 200)) ''gpu'') ''Board Design - TDP'' = Inr g
          \<and> (0 < c \<or> 0 < g) \<and> (365 :: int) = c + g + 100)
   \<and> (present (slot (tdp_build (VInt 65) (VInt 200)) ''cpu'')
        \<or> present (slot (tdp_build (VInt 65) (VInt 200)) ''gpu''))"
proof -
  have a: "get_constraints (tdp_build (VInt 65) (VInt 200))
     = Inr \<lparr>socket = None, memory_type = None, estimated_power = Some 365\<rparr>"
    by code_simp
  from estimated_power_iff [of "tdp_build (VInt 65) (VInt 200)"] a
  have "(\<forall>e. Some (365 :: int) = Some e \<longleftrightarrow>
           (\<exists>c g. tdp_of (slot (tdp_build (VInt 65) (VInt 200)) ''cpu'') ''Performance - TDP'' = Inr c
                \<and> tdp_of (slot (tdp_build (VInt 65) (VInt 200)) ''gpu'') ''Board Design - TDP'' = Inr g
                \<and> (0 < c \<or> 0 < g) \<and> e = c + g + 100))
        \<and> (present (slot (tdp_build (VInt 65) (VInt 200)) ''cpu'')
            \<or> present (slot (tdp_build (VInt 65) (VInt 200)) ''gpu''))"
    by simp
  with a show ?thesis by blast
qed

subsection \<open>Socket normalisation\<close>

lemma startswith_take: "startswith s p \<longleftrightarrow> take (length p) s = p"
  by (induction s p rule: startswith.induct) auto

lemma str_in_iff: "str_in sub s \<longleftrightarrow> (\<exists>pre post. s = pre @ sub @ post)"
proof (induction s)
  case Nil
  then show ?case by auto
next
  case (Cons c s)
  define xs where "xs = c # s"
  have step: "str_in sub xs \<longleftrightarrow> startswith xs sub \<or> str_in sub s"
    unfolding xs_def by simp
  have "str_in sub xs \<longleftrightarrow> (\<exists>pre post. xs = pre @ sub @ post)"
  proof
    assume "str_in sub xs"
    with step consider "startswith xs sub" | "str_in sub s" by blast
    then show "\<exists>pre post. xs = pre @ sub @ post"
    proof cases
      case 1
      then have "take (length sub) xs = sub" by (simp only: startswith_take)
      then have "xs = [] @ sub @ drop (length sub) xs"
        using append_take_drop_id [of "length sub" xs] by simp
      then show ?thesis by blast
    next
      case 2
      with Cons.IH obtain pre post where "s = pre @ sub @ post" by auto
      then have "xs = (c # pre) @ sub @ post" by (simp add: xs_def)
      then show ?thesis by blast
    qed
  next
    assume "\<exists>pre post. xs = pre @ sub @ post"
    then obtain pre post where e: "xs = pre @ sub @ post" by auto
    show "str_in sub xs"
    proof (cases pre)
      case Nil
      with e have "take (length sub) xs = sub" by simp
      then have "startswith xs sub" by (simp only: startswith_take)
      with step show ?thesis by blast
    next
      case (Cons a pre')
      with e have "s = pre' @ sub @ post" by (simp add: xs_def)
      with Cons.IH have "str_in sub s" by auto
      with step show ?thesis by blast
    qed
  qed
  then show ?case unfolding xs_def .
qed

lemma list_all_takeWhile: "list_all P (takeWhile P xs)"
  by (induction xs) auto

text \<open>What the two searches find, in terms of substrings.\<close>

lemma search_lga_Some:
  "search_lga s = Some g \<Longrightarrow> g \<noteq> [] \<and> list_all is_digit g \<and> str_in (''lga'' @ g) s"
proof (induction s)
  case Nil
  then show ?case by simp
next
  case (Cons c s)
  define xs where "xs = c # s"
  have eq: "search_lga xs =
     (if startswith xs ''lga'' \<and> takeWhile is_digit (drop 3 xs) \<noteq> []
      then Some (takeWhile is_digit (drop 3 xs)) else search_lga s)"
    unfolding xs_def by (rule search_lga.simps(2))
  have sw: "startswith xs ''lga'' \<longleftrightarrow> take 3 xs = ''lga''"
  proof -
    have l: "length ''lga'' = (3 :: nat)" by simp
    show ?thesis using startswith_take [of xs "''lga''"] unfolding l .
  qed
  from Cons.prems have p: "search_lga xs = Some g" by (simp only: xs_def)
  have "g \<noteq> [] \<and> list_all is_digit g \<and> str_in (''lga'' @ g) xs"
  proof (cases "startswith xs ''lga'' \<and> takeWhile is_digit (drop 3 xs) \<noteq> []")
    case True
    with p eq have g: "takeWhile is_digit (drop 3 xs) = g" by simp
    from True sw have t: "take 3 xs = ''lga''" by blast
    have "take 3 xs @ (takeWhile is_digit (drop 3 xs) @ dropWhile is_digit (drop 3 xs)) = xs"
      by (simp only: takeWhile_dropWhile_id append_take_drop_id)
    then have "xs = [] @ (''lga'' @ g) @ dropWhile is_digit (drop 3 xs)"
      unfolding t g by simp
    then have "str_in (''lga'' @ g) xs" unfolding str_in_iff by blast
    moreover have "list_all is_digit g" using list_all_takeWhile [of is_digit "drop 3 xs"]
      unfolding g .
    moreover from True g have "g \<noteq> []" by blast
    ultimately show ?thesis by blast
  next
    case False
    with p eq have "search_lga s = Some g" by simp
    with Cons.IH have ih: "g \<noteq> [] \<and> list_all is_digit g \<and> str_in (''lga'' @ g) s" by blast
    then obtain pre post where "s = pre @ (''lga'' @ g) @ post" unfolding str_in_iff by blast
    then have "xs = (c # pre) @ (''lga'' @ g) @ post" by (simp add: xs_def)
    then have "str_in (''lga'' @ g) xs" unfolding str_in_iff by blast
    with ih show ?thesis by blast
  qed
  then show ?case unfolding xs_def .
qed

lemma search_lga_None:
  "search_lga s = None \<Longrightarrow> is_digit d \<Longrightarrow> \<not> str_in (''lga'' @ [d]) s"
proof (induction s)
  case Nil
  then show ?case by simp
next
  case (Cons c s)
  define xs where "xs = c # s"
  have eq: "search_lga xs =
     (if startswith xs ''lga'' \<and> takeWhile is_digit (drop 3 xs) \<noteq> []
      then Some (takeWhile is_digit (drop 3 xs)) else search_lga s)"
    unfolding xs_def by (rule search_lga.simps(2))
  have sw: "startswith xs ''lga'' \<longleftrightarrow> take 3 xs = ''lga''"
  proof -
    have l: "length ''lga'' = (3 :: nat)" by simp
    show ?thesis using startswith_take [of xs "''lga''"] unfolding l .
  qed
  have sw4: "startswith xs (''lga'' @ [d]) \<longleftrightarrow> take 4 xs = ''lga'' @ [d]"
  proof -
    have l: "length (''lga'' @ [d]) = (4 :: nat)" by simp
    show ?thesis using startswith_take [of xs "''lga'' @ [d]"] unfolding l .
  qed
  have step: "str_in (''lga'' @ [d]) xs \<longleftrightarrow>
     startswith xs (''lga'' @ [d]) \<or> str_in (''lga'' @ [d]) s"
    unfolding xs_def by (rule str_in.simps(2))
  from Cons.prems(1) have p: "search_lga xs = None" by (simp only: xs_def)
  from p eq have
    no: "\<not> (startswith xs ''lga'' \<and> takeWhile is_digit (drop 3 xs) \<noteq> [])"
    and rest: "search_lga s = None"
    by (auto split: if_splits)
  have "\<not> startswith xs (''lga'' @ [d])"
  proof
    assume "startswith xs (''lga'' @ [d])"
    with sw4 have t: "take 4 xs = ''lga'' @ [d]" by blast
    have "take 3 (take 4 xs) = take 3 xs" by (simp add: min_def)
    with t have t3: "take 3 xs = ''lga''" by simp
    have "drop 3 (take 4 xs) = take 1 (drop 3 xs)" by (simp add: drop_take)
    with t have "take 1 (drop 3 xs) = [d]" by simp
    then obtain r where "drop 3 xs = d # r"
      by (cases "drop 3 xs") auto
    with Cons.prems(2) have "takeWhile is_digit (drop 3 xs) \<noteq> []" by simp
    with t3 sw no show False by blast
  qed
  with Cons.IH [OF rest Cons.prems(2)] step have "\<not> str_in (''lga'' @ [d]) xs" by blast
  then show ?case unfolding xs_def .
qed

lemma search_d4_Some:
  "search_d4 s = Some g \<Longrightarrow> length g = 4 \<and> list_all is_digit g \<and> str_in g s"
proof (induction s)
  case Nil
  then show ?case by simp
next
  case (Cons c s)
  define xs where "xs = c # s"
  have eq: "search_d4 xs =
     (if 4 \<le> length xs \<and> list_all is_digit (take 4 xs) then Some (take 4 xs)
      else search_d4 s)"
    unfolding xs_def by (rule search_d4.simps(2))
  from Cons.prems have p: "search_d4 xs = Some g" by (simp only: xs_def)
  have "length g = 4 \<and> list_all is_digit g \<and> str_in g xs"
  proof (cases "4 \<le> length xs \<and> list_all is_digit (take 4 xs)")
    case True
    with p eq have g: "take 4 xs = g" by simp
    have "xs = [] @ take 4 xs @ drop 4 xs" by simp
    then have "str_in (take 4 xs) xs" unfolding str_in_iff by blast
    moreover from True have "length (take 4 xs) = 4" by simp
    ultimately show ?thesis using True unfolding g by blast
  next
    case False
    with p eq have "search_d4 s = Some g" by simp
    with Cons.IH have ih: "length g = 4 \<and> list_all is_digit g \<and> str_in g s" by blast
    then obtain pre post where "s = pre @ g @ post" unfolding str_in_iff by blast
    then have "xs = (c # pre) @ g @ post" by (simp add: xs_def)
    then have "str_in g xs" unfolding str_in_iff by blast
    with ih show ?thesis by blast
  qed
  then show ?case unfolding xs_def .
qed

lemma search_d4_None:
  "search_d4 s = None \<Longrightarrow> length g = 4 \<Longrightarrow> list_all is_digit g \<Longrightarrow> \<not> str_in g s"
proof (induction s)
  case Nil
  then show ?case by auto
next
  case (Cons c s)
  define xs where "xs = c # s"
  have eq: "search_d4 xs =
     (if 4 \<le> length xs \<and> list_all is_digit (take 4 xs) then Some (take 4 xs)
      else search_d4 s)"
    unfolding xs_def by (rule search_d4.simps(2))
  have step: "str_in g xs \<longleftrightarrow> startswith xs g \<or> str_in g s"
    unfolding xs_def by (rule str_in.simps(2))
  from Cons.prems(1) have p: "search_d4 xs = None" by (simp only: xs_def)
  from p eq have
    no: "\<not> (4 \<le> length xs \<and> list_all is_digit (take 4 xs))"
    and rest: "search_d4 s = None"
    by (auto split: if_splits)
  have "\<not> startswith xs g"
  proof
    assume "startswith xs g"
    then have "take (length g) xs = g" by (simp only: startswith_take)
    with Cons.prems(2) have t: "take 4 xs = g" by simp
    then have "length (take 4 xs) = 4" using Cons.prems(2) by simp
    then have "4 \<le> length xs" by simp
    with t Cons.prems(3) no show False by simp
  qed
  with Cons.IH [OF rest Cons.prems(2,3)] step have "\<not> str_in g xs" by blast
  then show ?case unfolding xs_def .
qed

text \<open>
  C6. The claim: after the am4/am5 rule, \<open>lga\<close> followed by digits returns the digit
  group, and an occurrence of \<open>intel\<close> or \<open>socket\<close> returns the first 4-digit run if one
  exists. For \<open>LGA Socket 1700\<close> the cleaned string is \<open>lgasocket1700\<close>: no \<open>am4\<close> or
  \<open>am5\<close>, no \<open>lga\<close> followed by a digit, \<open>socket\<close> occurs and the first 4-digit run is
  \<open>1700\<close>; the source returns the whole cleaned string, because its \<open>lga\<close> branch
  returns without trying the later rules.
\<close>

theorem lga_without_digits_counterexample:
  "lower (filter (\<lambda>c. \<not> is_space c) ''LGA Socket 1700'') = ''lgasocket1700''
   \<and> \<not> str_in ''am4'' ''lgasocket1700'' \<and> \<not> str_in ''am5'' ''lgasocket1700''
   \<and> search_lga ''lgasocket1700'' = None
   \<and> str_in ''socket'' ''lgasocket1700''
   \<and> search_d4 ''lgasocket1700'' = Some ''1700''
   \<and> normalize_socket ''LGA Socket 1700'' \<noteq> Some ''1700''
   \<and> normalize_socket ''LGA Socket 1700'' = Some ''lgasocket1700''"
  by code_simp

text \<open>
  C6, amended: socket normalisation strips whitespace and lower-cases, then applies
  the rules in strict order. (a) An \<open>am4\<close> or \<open>am5\<close> substring returns \<open>am4\<close> or \<open>am5\<close>.
  (b) Otherwise, if \<open>lga\<close> occurs, the result is the digit group after the leftmost
  \<open>lga\<close> that a digit follows, and the whole cleaned string if no \<open>lga\<close> is followed by
  a digit. (c) Otherwise, if \<open>intel\<close> or \<open>socket\<close> occurs, the result is the first
  4-digit run, and the whole cleaned string if there is none. (d) Otherwise the substrings
  \<open>amd\<close>, \<open>intel\<close>, \<open>socket\<close> are removed and the rest returned. In particular
  \<open>LGA1700\<close> gives \<open>1700\<close>, \<open>Socket AM4\<close> gives \<open>am4\<close>, \<open>AM5\<close> gives \<open>am5\<close>.
\<close>

theorem normalize_socket_rules:
  assumes "socket_str \<noteq> []" and "s = lower (filter (\<lambda>c. \<not> is_space c) socket_str)"
  shows "(str_in ''am4'' s \<longrightarrow> normalize_socket socket_str = Some ''am4'')
    \<and> (\<not> str_in ''am4'' s \<and> str_in ''am5'' s \<longrightarrow> normalize_socket socket_str = Some ''am5'')
    \<and> (\<not> str_in ''am4'' s \<and> \<not> str_in ''am5'' s \<and> str_in ''lga'' s \<longrightarrow>
         (\<exists>r. normalize_socket socket_str = Some r
            \<and> (if \<exists>d. is_digit d \<and> str_in (''lga'' @ [d]) s
               then search_lga s = Some r \<and> r \<noteq> [] \<and> list_all is_digit r
                    \<and> str_in (''lga'' @ r) s
               else r = s)))
    \<and> (\<not> str_in ''am4'' s \<and> \<not> str_in ''am5'' s \<and> \<not> str_in ''lga'' s
         \<and> (str_in ''intel'' s \<or> str_in ''socket'' s) \<longrightarrow>
         (\<exists>r. normalize_socket socket_str = Some r
            \<and> (if \<exists>g. length g = 4 \<and> list_all is_digit g \<and> str_in g s
               then search_d4 s = Some r \<and> length r = 4 \<and> list_all is_digit r \<and> str_in r s
               else r = s)))
    \<and> (\<not> str_in ''am4'' s \<and> \<not> str_in ''am5'' s \<and> \<not> str_in ''lga'' s
         \<and> \<not> str_in ''intel'' s \<and> \<not> str_in ''socket'' s \<longrightarrow>
         normalize_socket socket_str
           = Some (remove_all ''socket'' (remove_all ''intel'' (remove_all ''amd'' s))))
    \<and> normalize_socket ''LGA1700'' = Some ''1700''
    \<and> normalize_socket ''Socket AM4'' = Some ''am4''
    \<and> normalize_socket ''AM5'' = Some ''am5''"
proof -
  have n: "normalize_socket socket_str =
     (if str_in ''am4'' s then Some ''am4''
      else if str_in ''am5'' s then Some ''am5''
      else if str_in ''lga'' s then
        (case search_lga s of Some g \<Rightarrow> Some g | None \<Rightarrow> Some s)
      else if str_in ''intel'' s \<or> str_in ''socket'' s then
        (case search_d4 s of Some g \<Rightarrow> Some g | None \<Rightarrow> Some s)
      else Some (remove_all ''socket'' (remove_all ''intel'' (remove_all ''amd'' s))))"
    unfolding normalize_socket_def Let_def assms(2) [symmetric] using assms(1) by simp
  have lga: "\<exists>r. (case search_lga s of Some g \<Rightarrow> Some g | None \<Rightarrow> Some s) = Some r
            \<and> (if \<exists>d. is_digit d \<and> str_in (''lga'' @ [d]) s
               then search_lga s = Some r \<and> r \<noteq> [] \<and> list_all is_digit r
                    \<and> str_in (''lga'' @ r) s
               else r = s)"
  proof (cases "search_lga s")
    case None
    then have "\<not> (\<exists>d. is_digit d \<and> str_in (''lga'' @ [d]) s)"
      using search_lga_None by blast
    with None show ?thesis by simp
  next
    case (Some g)
    from search_lga_Some [OF Some] have rest: "g \<noteq> []" "list_all is_digit g"
      "str_in (''lga'' @ g) s" by blast+
    from rest(1,2) obtain d g' where g: "g = d # g'" and d: "is_digit d"
      by (cases g) auto
    from rest(3) obtain pre post where "s = pre @ (''lga'' @ g) @ post"
      unfolding str_in_iff by blast
    then have "s = pre @ (''lga'' @ [d]) @ (g' @ post)" unfolding g by simp
    then have "str_in (''lga'' @ [d]) s" unfolding str_in_iff by blast
    with d have "\<exists>d. is_digit d \<and> str_in (''lga'' @ [d]) s" by blast
    with Some rest show ?thesis by simp
  qed
  have d4: "\<exists>r. (case search_d4 s of Some g \<Rightarrow> Some g | None \<Rightarrow> Some s) = Some r
            \<and> (if \<exists>g. length g = 4 \<and> list_all is_digit g \<and> str_in g s
               then search_d4 s = Some r \<and> length r = 4 \<and> list_all is_digit r \<and> str_in r s
               else r = s)"
  proof (cases "search_d4 s")
    case None
    then have "\<not> (\<exists>g. length g = 4 \<and> list_all is_digit g \<and> str_in g s)"
      using search_d4_None by blast
    with None show ?thesis by simp
  next
    case (Some g)
    from search_d4_Some [OF Some] have rest: "length g = 4" "list_all is_digit g" "str_in g s"
      by blast+
    then have "\<exists>g. length g = 4 \<and> list_all is_digit g \<and> str_in g s" by blast
    with Some rest show ?thesis by simp
  qed
  have r1: "str_in ''am4'' s \<longrightarrow> normalize_socket socket_str = Some ''am4''"
    using n by simp
  have r2: "\<not> str_in ''am4'' s \<and> str_in ''am5'' s \<longrightarrow> normalize_socket socket_str = Some ''am5''"
    using n by simp
  have r3: "\<not> str_in ''am4'' s \<and> \<not> str_in ''am5'' s \<and> str_in ''lga'' s \<longrightarrow>
         (\<exists>r. normalize_socket socket_str = Some r
            \<and> (if \<exists>d. is_digit d \<and> str_in (''lga'' @ [d]) s
               then search_lga s = Some r \<and> r \<noteq> [] \<and> list_all is_digit r
                    \<and> str_in (''lga'' @ r) s
               else r = s))"
  proof (intro impI)
    assume "\<not> str_in ''am4'' s \<and> \<not> str_in ''am5'' s \<and> str_in ''lga'' s"
    with n have e: "normalize_socket socket_str =
        (case search_lga s of Some g \<Rightarrow> Some g | None \<Rightarrow> Some s)" by simp
    show "\<exists>r. normalize_socket socket_str = Some r
            \<and> (if \<exists>d. is_digit d \<and> str_in (''lga'' @ [d]) s
               then search_lga s = Some r \<and> r \<noteq> [] \<and> list_all is_digit r
                    \<and> str_in (''lga'' @ r) s
               else r = s)"
      unfolding e by (rule lga)
  qed
  have r4: "\<not> str_in ''am4'' s \<and> \<not> str_in ''am5'' s \<and> \<not> str_in ''lga'' s
         \<and> (str_in ''intel'' s \<or> str_in ''socket'' s) \<longrightarrow>
         (\<exists>r. normalize_socket socket_str = Some r
            \<and> (if \<exists>g. length g = 4 \<and> list_all is_digit g \<and> str_in g s
               then search_d4 s = Some r \<and> length r = 4 \<and> list_all is_digit r \<and> str_in r s
               else r = s))"
  proof (intro impI)
    assume "\<not> str_in ''am4'' s \<and> \<not> str_in ''am5'' s \<and> \<not> str_in ''lga'' s
         \<and> (str_in ''intel'' s \<or> str_in ''socket'' s)"
    with n have e: "normalize_socket socket_str =
        (case search_d4 s of Some g \<Rightarrow> Some g | None \<Rightarrow> Some s)" by auto
    show "\<exists>r. normalize_socket socket_str = Some r
            \<and> (if \<exists>g. length g = 4 \<and> list_all is_digit g \<and> str_in g s
               then search_d4 s = Some r \<and> length r = 4 \<and> list_all is_digit r \<and> str_in r s
               else r = s)"
      unfolding e by (rule d4)
  qed
  have r5: "\<not> str_in ''am4'' s \<and> \<not> str_in ''am5'' s \<and> \<not> str_in ''lga'' s
         \<and> \<not> str_in ''intel'' s \<and> \<not> str_in ''socket'' s \<longrightarrow>
         normalize_socket socket_str
           = Some (remove_all ''socket'' (remove_all ''intel'' (remove_all ''amd'' s)))"
    using n by simp
  have e1: "normalize_socket ''LGA1700'' = Some ''1700''" by code_simp
  have e2: "normalize_socket ''Socket AM4'' = Some ''am4''" by code_simp
  have e3: "normalize_socket ''AM5'' = Some ''am5''" by code_simp
  from r1 r2 r3 r4 r5 e1 e2 e3 show ?thesis by blast
qed

theorem normalize_socket_rules_witness:
  "normalize_socket ''Intel Socket 1700'' = Some ''1700''
   \<and> normalize_socket ''Socket 7'' = Some ''socket7''"
proof -
  define s1 where "s1 = ''intelsocket1700''"
  define s2 where "s2 = ''socket7''"
  have a: "''Intel Socket 1700'' \<noteq> []" "''Socket 7'' \<noteq> []" by simp_all
  have c1: "s1 = lower (filter (\<lambda>c. \<not> is_space c) ''Intel Socket 1700'')"
    unfolding s1_def by code_simp
  have c2: "s2 = lower (filter (\<lambda>c. \<not> is_space c) ''Socket 7'')"
    unfolding s2_def by code_simp
  have f1: "\<not> str_in ''am4'' s1 \<and> \<not> str_in ''am5'' s1 \<and> \<not> str_in ''lga'' s1
      \<and> (str_in ''intel'' s1 \<or> str_in ''socket'' s1)"
    unfolding s1_def by code_simp
  have g1: "search_d4 s1 = Some ''1700''" unfolding s1_def by code_simp
  have f2: "\<not> str_in ''am4'' s2 \<and> \<not> str_in ''am5'' s2 \<and> \<not> str_in ''lga'' s2
      \<and> (str_in ''intel'' s2 \<or> str_in ''socket'' s2)"
    unfolding s2_def by code_simp
  have g2: "search_d4 s2 = None" unfolding s2_def by code_simp
  from normalize_socket_rules [OF a(1) c1] f1 obtain r where
    r: "normalize_socket ''Intel Socket 1700'' = Some r"
    and i: "if \<exists>g. length g = 4 \<and> list_all is_digit g \<and> str_in g s1
            then search_d4 s1 = Some r \<and> length r = 4 \<and> list_all is_digit r \<and> str_in r s1
            else r = s1"
    by blast
  from search_d4_Some [OF g1] have "\<exists>g. length g = 4 \<and> list_all is_digit g \<and> str_in g s1"
    by blast
  with i g1 have "r = ''1700''" by simp
  with r have w1: "normalize_socket ''Intel Socket 1700'' = Some ''1700''" by simp
  from normalize_socket_rules [OF a(2) c2] f2 obtain r' where
    r': "normalize_socket ''Socket 7'' = Some r'"
    and i': "if \<exists>g. length g = 4 \<and> list_all is_digit g \<and> str_in g s2
            then search_d4 s2 = Some r' \<and> length r' = 4 \<and> list_all is_digit r' \<and> str_in r' s2
            else r' = s2"
    by blast
  from search_d4_None [OF g2] have "\<not> (\<exists>g. length g = 4 \<and> list_all is_digit g \<and> str_in g s2)"
    by blast
  with i' have "r' = s2" by simp
  with r' have w2: "normalize_socket ''Socket 7'' = Some ''socket7''" by (simp add: s2_def)
  from w1 w2 show ?thesis by blast
qed

subsection \<open>The memory-type constraint\<close>

text \<open>
  C5. The claim: under a memory-type constraint a record exposing a memory-support field
  is excluded exactly when the constraint string is not a substring of that field. A
  record whose memory-support field is the empty string is excluded whatever the
  constraint is, also for the empty constraint string (which \<open>_get_constraints\<close> produces
  for a memory-support field such as \<open>, LPDDR\<close>), although the empty string is a
  substring of the empty string: the source returns \<open>False\<close> on \<open>not part_mem\<close> first.
\<close>

theorem empty_memory_support_counterexample:
  "has_key (board []) ''Architecture - Memory Support''
   \<and> \<not> (has_key (board []) ''speed'' \<and> has_key (board []) ''modules'')
   \<and> get (board []) ''Architecture - Memory Support'' = VStr []
   \<and> str_in [] []
   \<and> passes_constraints (board []) (memory_only []) = Inr False"
  by code_simp

text \<open>
  C5, amended: under a memory-type constraint alone, a RAM-shaped record (with a
  module-count field and a speed list whose first element is the integer \<open>g\<close>) is
  excluded exactly when \<open>g\<close> is zero or \<open>DDR\<close> followed by \<open>g\<close> is not a prefix of the
  constraint string; a record that is not RAM-shaped and has a memory-support string is
  excluded exactly when that string is empty or the constraint string is not a
  substring of it; a record of neither shape is never excluded.
\<close>

theorem memory_constraint_rule:
  "(map_of p ''speed'' = Some (VInts (g # rest)) \<and> has_key p ''modules'' \<longrightarrow>
      passes_constraints p (memory_only c)
        = Inr (\<not> (g = 0 \<or> \<not> startswith c (''DDR'' @ str_int g))))
   \<and> (\<not> (has_key p ''speed'' \<and> has_key p ''modules'')
        \<and> map_of p ''Architecture - Memory Support'' = Some (VStr s) \<longrightarrow>
      passes_constraints p (memory_only c) = Inr (\<not> (s = [] \<or> \<not> str_in c s)))
   \<and> (\<not> (has_key p ''speed'' \<and> has_key p ''modules'')
        \<and> \<not> has_key p ''Architecture - Memory Support'' \<longrightarrow>
      passes_constraints p (memory_only c) = Inr True)"
proof -
  have pc: "passes_constraints p (memory_only c) = check_memory p (memory_only c)"
    unfolding passes_constraints_def check_socket_def check_power_def memory_only_def ebind_def
    by (auto split: sum.splits)
  have 1: "check_memory p (memory_only c)
        = Inr (\<not> (g = 0 \<or> \<not> startswith c (''DDR'' @ str_int g)))"
    if "map_of p ''speed'' = Some (VInts (g # rest))" "has_key p ''modules''"
    using that
    unfolding check_memory_def memory_only_def ebind_def has_key_def getd_def
    by simp
  have 2: "check_memory p (memory_only c) = Inr (\<not> (s = [] \<or> \<not> str_in c s))"
    if "\<not> (has_key p ''speed'' \<and> has_key p ''modules'')"
      "map_of p ''Architecture - Memory Support'' = Some (VStr s)"
    using that
    unfolding check_memory_def memory_only_def ebind_def has_key_def get_def Let_def
    by auto
  have 3: "check_memory p (memory_only c) = Inr True"
    if "\<not> (has_key p ''speed'' \<and> has_key p ''modules'')"
      "\<not> has_key p ''Architecture - Memory Support''"
    using that
    unfolding check_memory_def memory_only_def ebind_def
    by auto
  from pc 1 2 3 show ?thesis by presburger
qed

theorem memory_constraint_rule_witness:
  "passes_constraints (ram_stick 5) (memory_only ''DDR5'') = Inr True
   \<and> passes_constraints (ram_stick 4) (memory_only ''DDR5'') = Inr False
   \<and> passes_constraints (ram_stick 0) (memory_only ''DDR0'') = Inr False
   \<and> passes_constraints (board ''DDR4, DDR5'') (memory_only ''DDR5'') = Inr True
   \<and> passes_constraints (board ''DDR4'') (memory_only ''DDR5'') = Inr False
   \<and> passes_constraints tower (memory_only ''DDR5'') = Inr True"
proof -
  have k: "map_of (ram_stick 5) ''speed'' = Some (VInts (5 # [6000])) \<and> has_key (ram_stick 5) ''modules''"
    "map_of (ram_stick 4) ''speed'' = Some (VInts (4 # [6000])) \<and> has_key (ram_stick 4) ''modules''"
    "map_of (ram_stick 0) ''speed'' = Some (VInts (0 # [6000])) \<and> has_key (ram_stick 0) ''modules''"
    by (simp_all add: ram_stick_def has_key_def)
  have b: "\<not> (has_key (board ''DDR4, DDR5'') ''speed'' \<and> has_key (board ''DDR4, DDR5'') ''modules'')
       \<and> map_of (board ''DDR4, DDR5'') ''Architecture - Memory Support'' = Some (VStr ''DDR4, DDR5'')"
    "\<not> (has_key (board ''DDR4'') ''speed'' \<and> has_key (board ''DDR4'') ''modules'')
       \<and> map_of (board ''DDR4'') ''Architecture - Memory Support'' = Some (VStr ''DDR4'')"
    by (simp_all add: board_def has_key_def)
  have t: "\<not> (has_key tower ''speed'' \<and> has_key tower ''modules'')
       \<and> \<not> has_key tower ''Architecture - Memory Support''"
    by (simp add: tower_def has_key_def)
  have e: "startswith ''DDR5'' (''DDR'' @ str_int 5)" "\<not> startswith ''DDR5'' (''DDR'' @ str_int 4)"
    "str_in ''DDR5'' ''DDR4, DDR5''" "\<not> str_in ''DDR5'' ''DDR4''"
    by code_simp+
  from memory_constraint_rule [of "ram_stick 5" 5 "[6000]" "''DDR5''"] k(1) e(1)
  have w1: "passes_constraints (ram_stick 5) (memory_only ''DDR5'') = Inr True" by simp
  from memory_constraint_rule [of "ram_stick 4" 4 "[6000]" "''DDR5''"] k(2) e(2)
  have w2: "passes_constraints (ram_stick 4) (memory_only ''DDR5'') = Inr False" by simp
  from memory_constraint_rule [of "ram_stick 0" 0 "[6000]" "''DDR0''"] k(3)
  have w3: "passes_constraints (ram_stick 0) (memory_only ''DDR0'') = Inr False" by simp
  from memory_constraint_rule [of "board ''DDR4, DDR5''" _ _ "''DDR5''" "''DDR4, DDR5''"] b(1) e(3)
  have w4: "passes_constraints (board ''DDR4, DDR5'') (memory_only ''DDR5'') = Inr True" by simp
  from memory_constraint_rule [of "board ''DDR4''" _ _ "''DDR5''" "''DDR4''"] b(2) e(4)
  have w5: "passes_constraints (board ''DDR4'') (memory_only ''DDR5'') = Inr False" by simp
  from memory_constraint_rule [of tower _ _ "''DDR5''"] t
  have w6: "passes_constraints tower (memory_only ''DDR5'') = Inr True" by simp
  from w1 w2 w3 w4 w5 w6 show ?thesis by blast
qed

subsection \<open>Enrichment\<close>

lemma map_of_copy_specs:
  "map_of (copy_specs ms specs p) k =
     (if k \<in> set specs then (case map_of ms k of None \<Rightarrow> map_of p k | Some v \<Rightarrow> Some v)
      else map_of p k)"
  unfolding copy_specs_def
proof (induction specs arbitrary: p)
  case Nil
  then show ?case by simp
next
  case (Cons x xs)
  show ?case
    by (cases "map_of ms x"; cases "map_of ms k")
       (auto simp: Cons.IH update_conv')
qed

lemma copy_specs_fixed:
  "(\<And>k v. k \<in> set specs \<Longrightarrow> map_of ms k = Some v \<Longrightarrow> map_of q k = Some v)
     \<Longrightarrow> copy_specs ms specs q = q"
  unfolding copy_specs_def
proof (induction specs)
  case Nil
  then show ?case by simp
next
  case (Cons x xs)
  have "(case map_of ms x of None \<Rightarrow> q | Some v \<Rightarrow> AList.update x v q) = q"
  proof (cases "map_of ms x")
    case None
    then show ?thesis by simp
  next
    case (Some v)
    with Cons.prems [of x v] have "map_of q x = Some v" by simp
    with Some show ?thesis by (simp add: update_triv)
  qed
  moreover have "fold (\<lambda>spec_key p. case map_of ms spec_key of None \<Rightarrow> p
                         | Some v \<Rightarrow> AList.update spec_key v p) xs q = q"
    using Cons.prems by (intro Cons.IH) auto
  ultimately show ?case by simp
qed

lemma copy_specs_idem: "copy_specs ms specs (copy_specs ms specs p) = copy_specs ms specs p"
  by (rule copy_specs_fixed) (simp add: map_of_copy_specs)

lemma get_copy_specs: "k \<notin> set specs \<Longrightarrow> get (copy_specs ms specs p) k = get p k"
  by (simp add: get_def map_of_copy_specs)

lemma find_master_spec_data [simp]:
  "find_master_spec (db\<lparr>data := d\<rparr>) mk n c = find_master_spec db mk n c"
  by (simp add: find_master_spec_def)

lemma enrich_product_data [simp]:
  "enrich_product (db\<lparr>data := d\<rparr>) pk mk mf specs p = enrich_product db pk mk mf specs p"
  by (simp add: enrich_product_def Let_def)

lemma enrich_all_data [simp]:
  "enrich_all (db\<lparr>data := d\<rparr>) pk mk mf specs ps = enrich_all db pk mk mf specs ps"
  by (induction ps) simp_all

lemma enrich_product_idem:
  assumes "''name'' \<notin> set specs" and "''chipset'' \<notin> set specs"
    and "enrich_product db pk mk mf specs p = Inr p'"
  shows "enrich_product db pk mk mf specs p' = Inr p'"
proof (cases "p' = p")
  case True
  with assms(3) show ?thesis by simp
next
  case False
  with assms(3) obtain ms where
    f: "find_master_spec db mk (get p ''name'') (get p ''chipset'') = Inr (Some ms)"
    and ne: "ms \<noteq> []" and p': "p' = copy_specs ms specs p"
    unfolding enrich_product_def Let_def ebind_def
    by (auto split: if_splits sum.splits option.splits)
  from assms(1,2) p' have
    g: "get p' ''name'' = get p ''name''" "get p' ''chipset'' = get p ''chipset''"
    by (simp_all add: get_copy_specs)
  have c: "copy_specs ms specs p' = p'" unfolding p' by (rule copy_specs_idem)
  show ?thesis
    unfolding enrich_product_def Let_def ebind_def g f using ne c by simp
qed

lemma enrich_all_idem:
  assumes "''name'' \<notin> set specs" and "''chipset'' \<notin> set specs"
  shows "enrich_all db pk mk mf specs ps = Inr ps' \<Longrightarrow>
         enrich_all db pk mk mf specs ps' = Inr ps'"
proof (induction ps arbitrary: ps')
  case Nil
  then show ?case by simp
next
  case (Cons p ps)
  from Cons.prems obtain q qs where
    q: "enrich_product db pk mk mf specs p = Inr q"
    and qs: "enrich_all db pk mk mf specs ps = Inr qs"
    and e: "ps' = q # qs"
    by (auto simp: ebind_def split: sum.splits)
  from enrich_product_idem [OF assms q] Cons.IH [OF qs] e
  show ?case by (simp add: ebind_def)
qed

text \<open>
  C9. The claim: running \<open>enrich_product_database\<close> twice with the same arguments leaves
  every record as it was after one run, for every catalogue and master table. With the
  list of keys that \<open>app.py\<close> passes for video cards, which contains \<open>chipset\<close>, the
  first run overwrites the card's chipset with the master record's, the second run
  matches the card by its new chipset against another master record, and the TDP
  changes from 115 to 200.
\<close>

theorem enrich_twice_counterexample:
  "enrich_once_twice gpu_files gpu_specs =
     Inr (Some [[(''name'', VStr ''card''), (''chipset'', VStr ''RTX 4070''),
                 (''Board Design - TDP'', VInt 115)]],
          Some [[(''name'', VStr ''card''), (''chipset'', VStr ''RTX 4070''),
                 (''Board Design - TDP'', VInt 200)]])"
  by code_simp

text \<open>
  C9, amended: when the list of keys to copy contains neither \<open>name\<close> nor \<open>chipset\<close>
  (the two fields a record is matched by) and the enriched category is not one of the
  two master lists, a run of \<open>enrich_product_database\<close> that returns leaves a database on
  which a second run with the same arguments returns the same database: every record
  is as it was after the first run.
\<close>

theorem enrich_idempotent:
  assumes "''name'' \<notin> set specs_to_copy" and "''chipset'' \<notin> set specs_to_copy"
    and "product_key \<notin> {''master_cpu_database'', ''master_gpu_database''}"
    and "enrich_product_database db product_key master_db_key match_field specs_to_copy
           = Inr db1"
  shows "enrich_product_database db1 product_key master_db_key match_field specs_to_copy
           = Inr db1"
proof (cases "map_of (data db) product_key = None \<or> map_of (data db) master_db_key = None")
  case True
  with assms(4) have "db1 = db"
    unfolding enrich_product_database_def by (auto split: option.splits)
  with assms(4) show ?thesis by simp
next
  case False
  then obtain ps where ps: "map_of (data db) product_key = Some ps"
    and mk: "map_of (data db) master_db_key \<noteq> None" by auto
  with assms(4) obtain ps' where
    e: "enrich_all db product_key master_db_key match_field specs_to_copy ps = Inr ps'"
    and db1: "db1 = db\<lparr>data := AList.update product_key ps' (data db)\<rparr>"
    unfolding enrich_product_database_def ebind_def
    by (auto split: sum.splits)
  have l1: "map_of (data db1) product_key = Some ps'"
    unfolding db1 by (simp add: update_conv')
  have l2: "map_of (data db1) master_db_key \<noteq> None"
    unfolding db1 using mk by (simp add: update_conv')
  have e1: "enrich_all db1 product_key master_db_key match_field specs_to_copy ps' = Inr ps'"
    unfolding db1 using enrich_all_idem [OF assms(1,2) e] by simp
  have u: "AList.update product_key ps' (data db1) = data db1"
    using l1 by (rule update_triv)
  show ?thesis
    unfolding enrich_product_database_def ebind_def using l1 l2 e1 u by simp
qed

theorem enrich_idempotent_witness:
  "enrich_once_twice gpu_files gpu_specs_main =
     Inr (Some [[(''name'', VStr ''card''), (''chipset'', VStr ''GeForce RTX 4060''),
                 (''Board Design - TDP'', VInt 115)]],
          Some [[(''name'', VStr ''card''), (''chipset'', VStr ''GeForce RTX 4060''),
                 (''Board Design - TDP'', VInt 115)]])"
proof -
  have "init_database gpu_files = Inr \<lparr>data = gpu_files, master_spec_maps =
      [(''gpu'', [({''rtx'', ''4060''}, [(''Name'', VStr ''RTX 4060''),
                     (''chipset'', VStr ''RTX 4070''), (''Board Design - TDP'', VInt 115)]),
                  ({''rtx'', ''4070''}, [(''Name'', VStr ''RTX 4070''),
                     (''Board Design - TDP'', VInt 200)])])]\<rparr>"
    by code_simp
  then obtain db where db: "init_database gpu_files = Inr db" by blast
  have h: "''name'' \<notin> set gpu_specs_main" "''chipset'' \<notin> set gpu_specs_main"
    "''video-card'' \<notin> {''master_cpu_database'', ''master_gpu_database''}"
    by (simp_all add: gpu_specs_main_def)
  have once: "ebind (init_database gpu_files)
       (\<lambda>db. ebind (enrich_product_database db ''video-card'' ''master_gpu_database''
                      ''name'' gpu_specs_main)
          (\<lambda>db1. Inr (map_of (data db1) ''video-card'')))
     = Inr (Some [[(''name'', VStr ''card''), (''chipset'', VStr ''GeForce RTX 4060''),
                 (''Board Design - TDP'', VInt 115)]])"
    by code_simp
  then obtain db1 where
    r: "enrich_product_database db ''video-card'' ''master_gpu_database'' ''name''
          gpu_specs_main = Inr db1"
    and c: "map_of (data db1) ''video-card'' =
       Some [[(''name'', VStr ''card''), (''chipset'', VStr ''GeForce RTX 4060''),
                 (''Board Design - TDP'', VInt 115)]]"
    unfolding db ebind_def by (auto split: sum.splits)
  from enrich_idempotent [OF h r]
  have "enrich_product_database db1 ''video-card'' ''master_gpu_database'' ''name''
          gpu_specs_main = Inr db1" .
  with db r c show ?thesis
    unfolding enrich_once_twice_def ebind_def by simp
qed

subsection \<open>The pick rule\<close>

lemma str_in_Nil [simp]: "str_in [] s"
  by (cases s) simp_all

lemma keyword_in_field_empty:
  "keyword_in_field [] p f = Inr b \<Longrightarrow> b"
  unfolding keyword_in_field_def by (auto split: val.splits)

lemma search_loop_empty_keyword:
  "search_loop t [] cs ps = Inr r \<Longrightarrow> r = filter (\<lambda>p. passes_constraints p cs = Inr True) ps"
proof (induction ps arbitrary: r)
  case Nil
  then show ?case by simp
next
  case (Cons p ps)
  from Cons.prems obtain ok where ok: "passes_constraints p cs = Inr ok"
    by (auto simp: ebind_def split: sum.splits)
  show ?case
  proof (cases ok)
    case False
    with ok Cons.prems have "search_loop t [] cs ps = Inr r" by (simp add: ebind_def)
    with Cons.IH ok False show ?thesis by simp
  next
    case True
    with ok Cons.prems obtain nm cm ms where
      nm: "keyword_in_field [] p ''name'' = Inr nm"
      and cm: "(if t = ''video-card'' then keyword_in_field [] p ''chipset''
                else Inr False) = Inr cm"
      and ms: "search_loop t [] cs ps = Inr ms"
      and r: "r = (if nm \<or> cm then p # ms else ms)"
      by (simp add: ebind_def split: sum.splits)
    from keyword_in_field_empty [OF nm] r have "r = p # ms" by simp
    with Cons.IH [OF ms] ok True show ?thesis by simp
  qed
qed

lemma affordable_map_filter:
  "affordable budget ps = Inr r \<Longrightarrow> r = List.map_filter (in_budget budget) ps"
proof (induction ps arbitrary: r)
  case Nil
  then show ?case by simp
next
  case (Cons p ps)
  show ?case
  proof (cases "truthy (get p ''price'')")
    case False
    with Cons.prems have a: "affordable budget ps = Inr r" by simp
    from False have "in_budget budget p = None"
      unfolding in_budget_def by (auto split: val.splits)
    with Cons.IH [OF a] show ?thesis by simp
  next
    case True
    with Cons.prems obtain n r' where n: "get p ''price'' = VInt n"
      and a: "affordable budget ps = Inr r'"
      and r: "r = (if of_int n \<le> budget then (n, p) # r' else r')"
      by (auto simp: ebind_def Let_def split: val.splits sum.splits)
    from True n have "n \<noteq> 0" by simp
    with n have "in_budget budget p = (if of_int n \<le> budget then Some (n, p) else None)"
      unfolding in_budget_def by simp
    with Cons.IH [OF a] r show ?thesis by simp
  qed
qed

lemma ddr5_parts_filter:
  "ddr5_parts xs = Inr r \<Longrightarrow> r = filter mentions_ddr5 xs"
proof (induction xs arbitrary: r)
  case Nil
  then show ?case by simp
next
  case (Cons x xs)
  from Cons.prems obtain b r' where
    b: "str_in_val ''DDR5'' (getd (snd x) ''Architecture - Memory Support'' (VStr [])) = Inr b"
    and r': "ddr5_parts xs = Inr r'" and r: "r = (if b then x # r' else r')"
    by (auto simp: ebind_def split: sum.splits)
  from b have "mentions_ddr5 x = b" unfolding mentions_ddr5_def by simp
  with Cons.IH [OF r'] r show ?case by simp
qed

text \<open>The head of Python's descending stable sort is the first of the highest.\<close>

lemma last_insort_key:
  "sorted (map f zs) \<Longrightarrow> zs \<noteq> [] \<Longrightarrow>
     last (insort_key f a zs) = (if f a \<le> f (last zs) then last zs else a)"
proof (induction zs)
  case Nil
  then show ?case by simp
next
  case (Cons z zs)
  show ?case
  proof (cases "zs = []")
    case True
    then show ?thesis by auto
  next
    case False
    from Cons.prems have s: "sorted (map f zs)" and le: "f z \<le> f (last zs)"
      using False by auto
    from Cons.IH [OF s False] False le show ?thesis by auto
  qed
qed

lemma find_strengthen:
  "find P xs = Some m \<Longrightarrow> (\<And>x. x \<in> set xs \<Longrightarrow> Q x \<Longrightarrow> P x) \<Longrightarrow> Q m \<Longrightarrow> find Q xs = Some m"
proof (induction xs)
  case Nil
  then show ?case by simp
next
  case (Cons x xs)
  show ?case
  proof (cases "P x")
    case True
    with Cons.prems show ?thesis by simp
  next
    case False
    with Cons.prems(2) [of x] have "\<not> Q x" by auto
    moreover from False Cons.prems(1) have "find P xs = Some m" by simp
    ultimately show ?thesis using Cons.IH Cons.prems(2,3) by simp
  qed
qed

lemma find_append_if:
  "find P (xs @ ys) = (case find P xs of None \<Rightarrow> find P ys | Some x \<Rightarrow> Some x)"
  by (induction xs) auto

lemma find_highest_last_sort:
  fixes f :: "'a \<Rightarrow> int"
  shows "xs \<noteq> [] \<Longrightarrow>
     find (\<lambda>x. \<forall>y \<in> set xs. f y \<le> f x) xs = Some (last (sort_key f (rev xs)))"
proof (induction xs rule: rev_induct)
  case Nil
  then show ?case by simp
next
  case (snoc a xs)
  show ?case
  proof (cases "xs = []")
    case True
    then show ?thesis by simp
  next
    case False
    define zs where "zs = sort_key f (rev xs)"
    define m where "m = last zs"
    have "length zs = length xs" by (simp add: zs_def)
    with False have "zs \<noteq> []" by auto
    then have zs: "sorted (map f zs)" "zs \<noteq> []" "set zs = set xs"
      by (simp_all add: zs_def)
    from snoc.IH [OF False] have ih: "find (\<lambda>x. \<forall>y \<in> set xs. f y \<le> f x) xs = Some m"
      by (simp add: m_def zs_def)
    then have m_in: "m \<in> set xs" and m_max: "\<forall>y \<in> set xs. f y \<le> f m"
      by (auto simp: find_Some_iff)
    have l: "last (sort_key f (rev (xs @ [a]))) = (if f a \<le> f m then m else a)"
      using last_insort_key [OF zs(1,2), of a] by (simp add: zs_def m_def)
    show ?thesis
    proof (cases "f a \<le> f m")
      case True
      have "find (\<lambda>x. \<forall>y \<in> set (xs @ [a]). f y \<le> f x) xs = Some m"
        using ih
      proof (rule find_strengthen)
        show "\<forall>y \<in> set (xs @ [a]). f y \<le> f m" using m_max True by auto
      qed auto
      with l True show ?thesis by (simp add: find_append_if)
    next
      case False
      then have lt: "f m < f a" by simp
      have "find (\<lambda>x. \<forall>y \<in> set (xs @ [a]). f y \<le> f x) xs = None"
        unfolding find_None_iff using m_max lt by fastforce
      moreover have "\<forall>y \<in> set (xs @ [a]). f y \<le> f a" using m_max lt by fastforce
      ultimately show ?thesis using l False by (simp add: find_append_if)
    qed
  qed
qed

lemma sorted_reverse_head:
  assumes "xs \<noteq> []"
  shows "\<exists>best rest. sorted_reverse xs = best # rest \<and> first_highest xs = Some (snd best)"
proof -
  from assms have ne: "sort_key fst (rev xs) \<noteq> []"
    by (metis length_0_conv length_rev length_sort)
  then obtain best rest where br: "sorted_reverse xs = best # rest"
    unfolding sorted_reverse_def by (cases "rev (sort_key fst (rev xs))") auto
  then have "best = hd (rev (sort_key fst (rev xs)))" unfolding sorted_reverse_def by simp
  then have "best = last (sort_key fst (rev xs))" by (simp add: hd_rev)
  with find_highest_last_sort [OF assms, of fst] have "first_highest xs = Some (snd best)"
    unfolding first_highest_def by simp
  with br show ?thesis by blast
qed

lemma first_highest_None: "first_highest xs = None \<longleftrightarrow> xs = []"
proof
  assume n: "first_highest xs = None"
  show "xs = []"
  proof (rule ccontr)
    assume "xs \<noteq> []"
    from sorted_reverse_head [OF this] n show False by auto
  qed
next
  assume "xs = []"
  then show "first_highest xs = None" by (simp add: first_highest_def)
qed

lemma candidates_Nil: "candidates db key budget cs = [] \<longleftrightarrow> survivors db key budget cs = []"
  unfolding candidates_def Let_def by auto

lemma search_parts_filter:
  "search_parts db key [] cs = Inr r \<Longrightarrow>
     r = filter (\<lambda>p. passes_constraints p cs = Inr True) (catalogue db key)"
  unfolding search_parts_def catalogue_def
  by (auto split: option.splits simp: lower_def dest: search_loop_empty_keyword)

lemma pick_part_result:
  assumes "pick_part db key budget cs = Inr r"
  shows "r = first_highest (candidates db key budget cs)"
proof -
  from assms obtain all_parts aff where
    sp: "search_parts db key [] cs = Inr all_parts"
    and af: "affordable budget all_parts = Inr aff"
    unfolding pick_part_def ebind_def by (auto split: sum.splits)
  from search_parts_filter [OF sp] affordable_map_filter [OF af]
  have aff: "aff = survivors db key budget cs" unfolding survivors_def by simp
  show ?thesis
  proof (cases "aff = []")
    case True
    with assms sp af have "r = None" unfolding pick_part_def ebind_def by simp
    moreover from True aff have "candidates db key budget cs = []"
      by (simp add: candidates_Nil)
    ultimately show ?thesis by (simp add: first_highest_def)
  next
    case False
    from assms sp af False obtain chosen where
      ch: "(if key = ''cpu''
            then ebind (ddr5_parts aff) (\<lambda>d. Inr (if d \<noteq> [] then d else aff))
            else Inr aff) = Inr chosen"
      and r: "(case sorted_reverse chosen of [] \<Rightarrow> Inl IndexError
               | best # rest \<Rightarrow> Inr (Some (snd best))) = Inr r"
      unfolding pick_part_def ebind_def by (auto split: sum.splits)
    have c: "chosen = candidates db key budget cs"
    proof (cases "key = ''cpu''")
      case True
      with ch obtain d where d: "ddr5_parts aff = Inr d"
        and "chosen = (if d \<noteq> [] then d else aff)"
        by (auto simp: ebind_def split: sum.splits)
      with ddr5_parts_filter [OF d] True aff show ?thesis
        unfolding candidates_def Let_def by simp
    next
      case False
      with ch aff show ?thesis unfolding candidates_def Let_def by simp
    qed
    from False aff have "candidates db key budget cs \<noteq> []" by (simp add: candidates_Nil)
    with c have "chosen \<noteq> []" by simp
    from sorted_reverse_head [OF this] r c show ?thesis by auto
  qed
qed

text \<open>On records of the data model's shape nothing raises.\<close>

lemma clean_check_socket:
  assumes "clean_part p"
  shows "\<exists>b. check_socket p cs = Inr b"
proof -
  from assms have "str_or_none (get p ''socket'')" "str_or_none (get p ''Physical - Socket'')"
    unfolding clean_part_def by simp_all
  then have "str_or_none (py_or (get p ''socket'') (get p ''Physical - Socket''))"
    unfolding py_or_def by simp
  then have "\<exists>r. normalize_socket_val (py_or (get p ''socket'') (get p ''Physical - Socket''))
               = Inr r"
    unfolding normalize_socket_val_def str_or_none_def by (auto split: val.splits)
  then show ?thesis
    unfolding check_socket_def Let_def ebind_def by (auto split: option.splits)
qed

lemma clean_check_memory:
  assumes "clean_part p"
  shows "\<exists>b. check_memory p cs = Inr b"
proof (cases "memory_type cs")
  case None
  then show ?thesis unfolding check_memory_def by auto
next
  case (Some c)
  show ?thesis
  proof (cases "has_key p ''speed'' \<and> has_key p ''modules''")
    case True
    with assms obtain g f where "map_of p ''speed'' = Some (VInts (g # f))"
      unfolding clean_part_def has_key_def
      by (auto split: option.splits val.splits list.splits)
    with True Some show ?thesis
      unfolding check_memory_def ebind_def getd_def by auto
  next
    case False
    show ?thesis
    proof (cases "has_key p ''Architecture - Memory Support''")
      case True
      with assms obtain s where "map_of p ''Architecture - Memory Support'' = Some (VStr s)"
        unfolding clean_part_def has_key_def is_str_def
        by (auto split: option.splits val.splits)
      with True False Some show ?thesis
        unfolding check_memory_def Let_def get_def by auto
    next
      case nk: False
      with False Some show ?thesis unfolding check_memory_def by auto
    qed
  qed
qed

lemma clean_passes:
  assumes "clean_part p"
  shows "\<exists>b. passes_constraints p cs = Inr b"
  using clean_check_socket [OF assms, of cs] clean_check_memory [OF assms, of cs]
  unfolding passes_constraints_def ebind_def by auto

lemma clean_keyword:
  assumes "clean_part p"
  shows "\<exists>b. keyword_in_field k p ''name'' = Inr b"
    and "\<exists>b. keyword_in_field k p ''chipset'' = Inr b"
  using assms unfolding clean_part_def keyword_in_field_def is_str_def getd_def
  by (auto split: option.splits val.splits)

lemma clean_search_loop:
  "list_all clean_part ps \<Longrightarrow> \<exists>r. search_loop t k cs ps = Inr r"
proof (induction ps)
  case Nil
  then show ?case by simp
next
  case (Cons p ps)
  then have c: "clean_part p" and "list_all clean_part ps" by simp_all
  with Cons.IH obtain r where r: "search_loop t k cs ps = Inr r" by blast
  from clean_passes [OF c, of cs] obtain ok where ok: "passes_constraints p cs = Inr ok"
    by blast
  from clean_keyword [OF c, of k] obtain nm cm where
    "keyword_in_field k p ''name'' = Inr nm" "keyword_in_field k p ''chipset'' = Inr cm"
    by blast
  with r ok show ?case by (simp add: ebind_def)
qed

lemma clean_affordable:
  "list_all clean_part ps \<Longrightarrow> \<exists>r. affordable budget ps = Inr r"
proof (induction ps)
  case Nil
  then show ?case by simp
next
  case (Cons p ps)
  from Cons.prems have c: "int_or_none (get p ''price'')" by (simp add: clean_part_def)
  from Cons.prems have "list_all clean_part ps" by simp
  with Cons.IH obtain r where r: "affordable budget ps = Inr r" by blast
  from c r show ?case
    unfolding int_or_none_def by (auto simp: ebind_def Let_def split: val.splits)
qed

lemma clean_ddr5_parts:
  "list_all (\<lambda>x. clean_part (snd x)) xs \<Longrightarrow> \<exists>r. ddr5_parts xs = Inr r"
proof (induction xs)
  case Nil
  then show ?case by simp
next
  case (Cons x xs)
  then have c: "clean_part (snd x)" and "list_all (\<lambda>x. clean_part (snd x)) xs" by simp_all
  with Cons.IH obtain r where r: "ddr5_parts xs = Inr r" by blast
  from c have "\<exists>b. str_in_val ''DDR5''
       (getd (snd x) ''Architecture - Memory Support'' (VStr [])) = Inr b"
    unfolding clean_part_def is_str_def getd_def
    by (auto split: option.splits val.splits)
  with r show ?case by (auto simp: ebind_def)
qed

lemma in_budget_snd: "in_budget budget p = Some x \<Longrightarrow> snd x = p"
  unfolding in_budget_def by (auto split: val.splits if_splits)

lemma map_filter_in_budget_clean:
  "list_all clean_part ps \<Longrightarrow>
     list_all (\<lambda>x. clean_part (snd x)) (List.map_filter (in_budget budget) ps)"
proof (induction ps)
  case Nil
  then show ?case by simp
next
  case (Cons p ps)
  then show ?case
    by (cases "in_budget budget p") (auto dest: in_budget_snd)
qed

lemma pick_part_total:
  assumes "list_all clean_part (catalogue db key)"
  shows "\<exists>r. pick_part db key budget cs = Inr r"
proof -
  from assms have "\<exists>r. search_parts db key [] cs = Inr r"
    unfolding search_parts_def catalogue_def
    by (auto split: option.splits intro: clean_search_loop)
  then obtain all_parts where sp: "search_parts db key [] cs = Inr all_parts" by blast
  from search_parts_filter [OF sp] assms have cl: "list_all clean_part all_parts"
    by (simp add: list_all_iff)
  from clean_affordable [OF cl] obtain aff where af: "affordable budget all_parts = Inr aff"
    by blast
  from affordable_map_filter [OF af] map_filter_in_budget_clean [OF cl]
  have "list_all (\<lambda>x. clean_part (snd x)) aff" by simp
  from clean_ddr5_parts [OF this] obtain d where d: "ddr5_parts aff = Inr d" by blast
  show ?thesis
  proof (cases "aff = []")
    case True
    with sp af show ?thesis unfolding pick_part_def ebind_def by simp
  next
    case False
    define chosen where "chosen = (if key = ''cpu'' \<and> d \<noteq> [] then d else aff)"
    have ne: "chosen \<noteq> []" using False unfolding chosen_def by auto
    from sorted_reverse_head [OF ne] obtain best rest where
      "sorted_reverse chosen = best # rest" by blast
    with sp af d False show ?thesis
      unfolding pick_part_def ebind_def chosen_def by auto
  qed
qed
text \<open>
  C3. The claim: for the CPU category, when no survivor mentions DDR5 the choice is made
  only among the DDR4-capable survivors. With a DDR3 processor at 100 and a DDR4
  processor at 50, both within a budget of 200, the source picks the DDR3 processor:
  its \<open>else\<close> branch keeps every affordable part.
\<close>

theorem no_ddr4_filter_counterexample:
  "survivors old_cpus ''cpu'' 200 no_constraints
     = [(100, cpu_record ''A'' 100 ''DDR3''), (50, cpu_record ''B'' 50 ''DDR4'')]
   \<and> filter mentions_ddr5 (survivors old_cpus ''cpu'' 200 no_constraints) = []
   \<and> \<not> str_in ''DDR4'' ''DDR3'' \<and> str_in ''DDR4'' ''DDR4''
   \<and> pick_part old_cpus ''cpu'' 200 no_constraints = Inr (Some (cpu_record ''A'' 100 ''DDR3''))"
  by code_simp

text \<open>
  C3, amended: for every category, sub-budget and constraint set, on a catalogue whose
  records have the shape of the data model, \<open>_pick_part\<close> returns; it returns \<open>None\<close>
  exactly when no record of the category passes the constraints with a nonzero price
  at most the sub-budget; otherwise it returns the highest-priced candidate, the first
  in catalogue order among the highest-priced, where the candidates are, for the CPU
  category, the survivors whose memory-support field mentions DDR5 if there is one,
  and all survivors otherwise.
\<close>

theorem pick_part_rule:
  assumes "list_all clean_part (catalogue db key)"
  shows "pick_part db key budget cs = Inr (first_highest (candidates db key budget cs))
    \<and> (first_highest (candidates db key budget cs) = None
          \<longleftrightarrow> survivors db key budget cs = [])"
proof -
  from pick_part_total [OF assms] obtain r where r: "pick_part db key budget cs = Inr r"
    by blast
  from pick_part_result [OF r] r
  have "pick_part db key budget cs = Inr (first_highest (candidates db key budget cs))"
    by simp
  then show ?thesis by (simp add: first_highest_None candidates_Nil)
qed

theorem pick_part_rule_witness:
  "list_all clean_part (catalogue new_cpus ''cpu'')
   \<and> survivors new_cpus ''cpu'' 200 no_constraints
       = [(100, cpu_record ''A'' 100 ''DDR4''), (70, cpu_record ''B'' 70 ''DDR4, DDR5''),
          (80, cpu_record ''C'' 80 ''DDR5''), (80, cpu_record ''D'' 80 ''DDR5'')]
   \<and> pick_part new_cpus ''cpu'' 200 no_constraints = Inr (Some (cpu_record ''C'' 80 ''DDR5''))
   \<and> pick_part new_cpus ''cpu'' 60 no_constraints = Inr None"
proof -
  have c: "list_all clean_part (catalogue new_cpus ''cpu'')" by code_simp
  have s: "survivors new_cpus ''cpu'' 200 no_constraints
       = [(100, cpu_record ''A'' 100 ''DDR4''), (70, cpu_record ''B'' 70 ''DDR4, DDR5''),
          (80, cpu_record ''C'' 80 ''DDR5''), (80, cpu_record ''D'' 80 ''DDR5'')]"
    by code_simp
  have f: "first_highest (candidates new_cpus ''cpu'' 200 no_constraints)
       = Some (cpu_record ''C'' 80 ''DDR5'')"
    by code_simp
  have n: "survivors new_cpus ''cpu'' 60 no_constraints = []" by code_simp
  from pick_part_rule [OF c, of 200 no_constraints] f
  have 1: "pick_part new_cpus ''cpu'' 200 no_constraints = Inr (Some (cpu_record ''C'' 80 ''DDR5''))"
    by simp
  from pick_part_rule [OF c, of 60 no_constraints] n
  have 2: "pick_part new_cpus ''cpu'' 60 no_constraints = Inr None" by simp
  from c s 1 2 show ?thesis by blast
qed

subsection \<open>The allocator\<close>








text \<open>A record that passes the whole constraint set passes the socket check.\<close>

lemma passes_socket:
  "passes_constraints p cs = Inr True \<Longrightarrow> check_socket p cs = Inr True"
  unfolding passes_constraints_def ebind_def
  by (auto split: sum.splits if_splits)

lemma map_filter_Nil: "(\<And>x. x \<in> set xs \<Longrightarrow> f x = None) \<Longrightarrow> List.map_filter f xs = []"
  by (induction xs) auto

lemma survivors_Nil_socket:
  assumes "\<forall>m \<in> set (catalogue db key).
             \<not> (check_socket m cs = Inr True \<and> in_budget budget m \<noteq> None)"
  shows "survivors db key budget cs = []"
  unfolding survivors_def
proof (rule map_filter_Nil)
  fix m
  assume "m \<in> set (filter (\<lambda>p. passes_constraints p cs = Inr True) (catalogue db key))"
  then have "m \<in> set (catalogue db key)" "check_socket m cs = Inr True"
    by (auto dest: passes_socket)
  with assms show "in_budget budget m = None" by blast
qed

lemma add_part_name:
  assumes "add_part new_partlist ''cpu'' cpu = Inr build"
  shows "name_of cpu = Inr (py_str (get cpu ''name''))"
proof -
  have "map_of (parts new_partlist) ''cpu'' \<noteq> None" by (simp add: new_partlist_def)
  with assms have "has_key cpu ''name''" unfolding add_part_def by (auto split: if_splits)
  then show ?thesis unfolding name_of_def has_key_def get_def by (auto split: option.splits)
qed

text \<open>Slots of a build: \<open>add_part\<close> fills one slot and leaves the others.\<close>

definition slot_keys :: "partlist \<Rightarrow> bool" where
  "slot_keys pl \<longleftrightarrow> map fst (parts pl) = map fst (parts new_partlist)"

lemma slot_keys_new: "slot_keys new_partlist"
  by (simp add: slot_keys_def)

lemma slot_keys_mem:
  assumes "slot_keys pl"
    and "k \<in> set [''cpu'', ''gpu'', ''motherboard'', ''ram'', ''psu'', ''case'']"
  shows "map_of (parts pl) k \<noteq> None"
proof -
  from assms(1) have "map fst (parts pl)
      = [''cpu'', ''gpu'', ''motherboard'', ''ram'', ''psu'', ''case'']"
    unfolding slot_keys_def new_partlist_def by simp
  then have "set (map fst (parts pl))
      = set [''cpu'', ''gpu'', ''motherboard'', ''ram'', ''psu'', ''case'']"
    by (rule arg_cong)
  with assms(2) have "k \<in> set (map fst (parts pl))" by blast
  then have "k \<in> fst ` set (parts pl)" by (simp only: set_map)
  then show ?thesis by (simp only: map_of_eq_None_iff not_False_eq_True not_not)
qed

lemma add_part_slots:
  assumes "add_part pl k p = Inr pl'" and "slot_keys pl"
    and "k \<in> set [''cpu'', ''gpu'', ''motherboard'', ''ram'', ''psu'', ''case'']"
  shows "slot_keys pl'" and "slot pl' k' = (if k' = k then Some p else slot pl k')"
proof -
  from slot_keys_mem [OF assms(2,3)] have m: "map_of (parts pl) k \<noteq> None" .
  with assms(1) have pl': "pl' = pl\<lparr>parts := AList.update k (Some p) (parts pl)\<rparr>"
    unfolding add_part_def by (auto split: if_splits)
  from m have "k \<in> fst ` set (parts pl)" by (simp add: map_of_eq_None_iff)
  then have "map fst (AList.update k (Some p) (parts pl)) = map fst (parts pl)"
    by (simp add: update_keys)
  with assms(2) show "slot_keys pl'" unfolding slot_keys_def pl' by simp
  show "slot pl' k' = (if k' = k then Some p else slot pl k')"
    unfolding slot_def pl' by (simp add: update_conv')
qed

end
